theory Spec2Isabelle
  imports Complex_Main "HOL-Library.Word"
begin

unbundle bit_operations_syntax

section \<open>Python values used by the Bristlemouth modules\<close>

text \<open>
  The development embeds \<^verbatim>\<open>ml_sensors/bristlemouth/protocol.py\<close>, \<^verbatim>\<open>sensors.py\<close> and
  \<^verbatim>\<open>spotter.py\<close>. Python \<^verbatim>\<open>bytes\<close> are lists of 8-bit words, Python \<^verbatim>\<open>int\<close> is
  \<open>int\<close>, a Python \<^verbatim>\<open>str\<close> is the list of its code points (so \<open>length\<close> is Python's
  \<^verbatim>\<open>len\<close>), and a Python \<^verbatim>\<open>float\<close> is its IEEE 754 binary64 bit pattern.
\<close>

type_synonym byte = "8 word"
type_synonym pystr = "nat list"
type_synonym f64 = "64 word"
type_synonym f32 = "32 word"

text \<open>What a sensor's validator answers (the second component of \<^verbatim>\<open>validate_reading\<close>).\<close>

datatype validator_msg = MustBeNumeric | BelowMinimum | AboveMaximum | Valid

text \<open>
  Every exception the embedded code can raise. The first group are the \<^verbatim>\<open>ValueError\<close>s the
  modules raise themselves, the second group are raised by the Python runtime
  (\<^verbatim>\<open>struct\<close>, \<^verbatim>\<open>str.encode\<close>, \<^verbatim>\<open>bytes.decode\<close>, \<^verbatim>\<open>int()\<close>, \<^verbatim>\<open>float()\<close>, indexing,
  the \<^verbatim>\<open>MessageType\<close> enum).
\<close>

datatype error =
    TopicNameEmpty
  | TopicNameTooLong
  | PayloadTooLarge nat
  | MessageTooShort
  | InvalidMagic byte
  | ChecksumMismatch
  | BytesRequired
  | UnknownDataType int
  | QualityOutOfRange
  | InvalidReading validator_msg
  | DirectionOutOfRange
  | InvalidMessageType int
  | StructError
  | UnicodeEncodeError
  | UnicodeDecodeError
  | IndexError
  | OverflowError
  | FloatNaNToInt
  | TypeError
  | ZeroDivisionError
  | DequeMaxlenNegative

text \<open>The error taxonomy of the specification (section 7), as a classification of the above.\<close>

datatype error_kind = FormatError | IntegrityError | ValidationError | RuntimeError

fun kind_of :: "error \<Rightarrow> error_kind" where
  "kind_of TopicNameEmpty = FormatError"
| "kind_of TopicNameTooLong = FormatError"
| "kind_of (PayloadTooLarge n) = FormatError"
| "kind_of MessageTooShort = FormatError"
| "kind_of (InvalidMagic b) = FormatError"
| "kind_of (UnknownDataType k) = FormatError"
| "kind_of ChecksumMismatch = IntegrityError"
| "kind_of QualityOutOfRange = ValidationError"
| "kind_of (InvalidReading m) = ValidationError"
| "kind_of DirectionOutOfRange = ValidationError"
| "kind_of e = RuntimeError"

subsection \<open>Slices and big-endian integers (\<^verbatim>\<open>struct\<close> formats B, H, I, Q, b, h, i, q)\<close>

text \<open>\<^verbatim>\<open>data[a:b]\<close> for \<open>0 \<le> a\<close>, \<open>0 \<le> b\<close>: never raises, shorter when out of range.\<close>

definition slice :: "nat \<Rightarrow> nat \<Rightarrow> 'a list \<Rightarrow> 'a list" where
  "slice a b xs = take (b - a) (drop a xs)"

fun be_bytes :: "nat \<Rightarrow> nat \<Rightarrow> byte list" where
  "be_bytes 0 v = []"
| "be_bytes (Suc n) v = of_nat (v div 256 ^ n) # be_bytes n v"

definition be_nat :: "byte list \<Rightarrow> nat" where
  "be_nat bs = foldl (\<lambda>a b. a * 256 + unat b) 0 bs"

text \<open>\<^verbatim>\<open>struct.pack\<close> of an unsigned format of \<open>n\<close> bytes raises \<^verbatim>\<open>struct.error\<close> out of range.\<close>

definition pack_uint :: "nat \<Rightarrow> int \<Rightarrow> error + byte list" where
  "pack_uint n v = (if 0 \<le> v \<and> v < 256 ^ n then Inr (be_bytes n (nat v)) else Inl StructError)"

text \<open>\<^verbatim>\<open>struct.unpack\<close> raises \<^verbatim>\<open>struct.error\<close> unless the buffer has exactly the format's size.\<close>

definition unpack_uint :: "nat \<Rightarrow> byte list \<Rightarrow> error + int" where
  "unpack_uint n bs = (if length bs = n then Inr (int (be_nat bs)) else Inl StructError)"

definition pack_sint :: "nat \<Rightarrow> int \<Rightarrow> error + byte list" where
  "pack_sint n v =
     (if - (256 ^ n div 2) \<le> v \<and> v < 256 ^ n div 2
      then Inr (be_bytes n (nat (v mod 256 ^ n))) else Inl StructError)"

definition unpack_sint :: "nat \<Rightarrow> byte list \<Rightarrow> error + int" where
  "unpack_sint n bs =
     (if length bs = n
      then Inr (let u = int (be_nat bs) in if u < 256 ^ n div 2 then u else u - 256 ^ n)
      else Inl StructError)"

subsection \<open>IEEE 754 binary floating point\<close>

text \<open>
  A format has \<open>eb\<close> exponent bits and \<open>fb\<close> fraction bits (11 and 52 for binary64, 8 and 23
  for binary32). A bit pattern is handled as a natural number. A finite pattern denotes
  \<open>(-1)\<^sup>s * fl_mant * 2 ^ fl_expo\<close>.
\<close>

definition fl_sign :: "nat \<Rightarrow> nat \<Rightarrow> nat \<Rightarrow> bool" where
  "fl_sign eb fb b = (b div 2 ^ (eb + fb) mod 2 = 1)"

definition fl_exp :: "nat \<Rightarrow> nat \<Rightarrow> nat \<Rightarrow> nat" where
  "fl_exp eb fb b = b div 2 ^ fb mod 2 ^ eb"

definition fl_frac :: "nat \<Rightarrow> nat \<Rightarrow> nat" where
  "fl_frac fb b = b mod 2 ^ fb"

definition fl_is_nan :: "nat \<Rightarrow> nat \<Rightarrow> nat \<Rightarrow> bool" where
  "fl_is_nan eb fb b = (fl_exp eb fb b = 2 ^ eb - 1 \<and> fl_frac fb b \<noteq> 0)"

definition fl_is_inf :: "nat \<Rightarrow> nat \<Rightarrow> nat \<Rightarrow> bool" where
  "fl_is_inf eb fb b = (fl_exp eb fb b = 2 ^ eb - 1 \<and> fl_frac fb b = 0)"

definition fl_emin :: "nat \<Rightarrow> nat \<Rightarrow> int" where
  "fl_emin eb fb = 2 - 2 ^ (eb - 1) - int fb"

definition fl_mant :: "nat \<Rightarrow> nat \<Rightarrow> nat \<Rightarrow> nat" where
  "fl_mant eb fb b = (if fl_exp eb fb b = 0 then fl_frac fb b else 2 ^ fb + fl_frac fb b)"

definition fl_expo :: "nat \<Rightarrow> nat \<Rightarrow> nat \<Rightarrow> int" where
  "fl_expo eb fb b = int (max 1 (fl_exp eb fb b)) - 1 + fl_emin eb fb"

definition fl_inf :: "nat \<Rightarrow> nat \<Rightarrow> bool \<Rightarrow> nat" where
  "fl_inf eb fb sg = (if sg then 2 ^ (eb + fb) else 0) + (2 ^ eb - 1) * 2 ^ fb"

definition fl_qnan :: "nat \<Rightarrow> nat \<Rightarrow> nat" where
  "fl_qnan eb fb = (2 ^ eb - 1) * 2 ^ fb + 2 ^ (fb - 1)"

fun bitlen :: "nat \<Rightarrow> nat" where
  "bitlen n = (if n = 0 then 0 else Suc (bitlen (n div 2)))"

declare bitlen.simps [simp del]

text \<open>Dropping the \<open>s\<close> low bits of \<open>N\<close>, rounding to nearest, ties to even.\<close>

definition rne :: "nat \<Rightarrow> nat \<Rightarrow> nat" where
  "rne N s =
     (if s = 0 then N
      else let q = N div 2 ^ s; r = N mod 2 ^ s; h = 2 ^ (s - 1)
           in if h < r \<or> (r = h \<and> odd q) then q + 1 else q)"

text \<open>
  The pattern nearest to \<open>(-1)\<^sup>s\<^sup>g * N * 2 ^ E\<close>: \<open>sh\<close> low bits are dropped so that at most
  \<open>fb + 1\<close> significant bits remain and the last bit weighs at least \<open>2 ^ fl_emin\<close>; a
  magnitude beyond the largest finite one becomes infinity.
\<close>

definition fl_round :: "nat \<Rightarrow> nat \<Rightarrow> bool \<Rightarrow> nat \<Rightarrow> int \<Rightarrow> nat" where
  "fl_round eb fb sg N E =
     (let sh = max (int (bitlen N) - int (fb + 1)) (fl_emin eb fb - E);
          M = (if sh \<le> 0 then N * 2 ^ nat (- sh) else rne N (nat sh));
          mag = (if N = 0 then 0 else nat (E + sh - fl_emin eb fb) * 2 ^ fb + M)
      in (if sg then 2 ^ (eb + fb) else 0) + min mag ((2 ^ eb - 1) * 2 ^ fb))"

text \<open>Python float multiplication \<^verbatim>\<open>x * y\<close>.\<close>

definition f64_mul :: "f64 \<Rightarrow> f64 \<Rightarrow> f64" where
  "f64_mul x y =
     (let a = unat x; b = unat y; sg = (fl_sign 11 52 a \<noteq> fl_sign 11 52 b)
      in if fl_is_nan 11 52 a \<or> fl_is_nan 11 52 b then of_nat (fl_qnan 11 52)
         else if fl_is_inf 11 52 a then
           (if fl_mant 11 52 b = 0 then of_nat (fl_qnan 11 52) else of_nat (fl_inf 11 52 sg))
         else if fl_is_inf 11 52 b then
           (if fl_mant 11 52 a = 0 then of_nat (fl_qnan 11 52) else of_nat (fl_inf 11 52 sg))
         else of_nat (fl_round 11 52 sg (fl_mant 11 52 a * fl_mant 11 52 b)
                        (fl_expo 11 52 a + fl_expo 11 52 b)))"

text \<open>Python float division \<^verbatim>\<open>x / y\<close>; the quotient carries a sticky bit below 57 exact ones.\<close>

definition f64_div :: "f64 \<Rightarrow> f64 \<Rightarrow> error + f64" where
  "f64_div x y =
     (let a = unat x; b = unat y; sg = (fl_sign 11 52 a \<noteq> fl_sign 11 52 b)
      in if \<not> fl_is_nan 11 52 b \<and> \<not> fl_is_inf 11 52 b \<and> fl_mant 11 52 b = 0
         then Inl ZeroDivisionError
         else if fl_is_nan 11 52 a \<or> fl_is_nan 11 52 b then Inr (of_nat (fl_qnan 11 52))
         else if fl_is_inf 11 52 a then
           (if fl_is_inf 11 52 b then Inr (of_nat (fl_qnan 11 52))
            else Inr (of_nat (fl_inf 11 52 sg)))
         else if fl_is_inf 11 52 b then Inr (if sg then 2 ^ 63 else 0)
         else
           (let n = fl_mant 11 52 a; d = fl_mant 11 52 b; k = 56 + bitlen d;
                q = n * 2 ^ k div d; st = (if n * 2 ^ k mod d = 0 then 0 else 1)
            in Inr (of_nat (fl_round 11 52 sg (2 * q + st)
                              (fl_expo 11 52 a - fl_expo 11 52 b - int k - 1)))))"

text \<open>
  \<^verbatim>\<open>int(x)\<close> for a float: truncation towards zero; \<^verbatim>\<open>ValueError\<close> for NaN and
  \<^verbatim>\<open>OverflowError\<close> for an infinity.
\<close>

definition f64_to_int :: "f64 \<Rightarrow> error + int" where
  "f64_to_int x =
     (let a = unat x; m = fl_mant 11 52 a; e = fl_expo 11 52 a
      in if fl_is_nan 11 52 a then Inl FloatNaNToInt
         else if fl_is_inf 11 52 a then Inl OverflowError
         else Inr ((if fl_sign 11 52 a then - 1 else 1) *
                   int (if 0 \<le> e then m * 2 ^ nat e else m div 2 ^ nat (- e))))"

text \<open>
  \<^verbatim>\<open>float(i)\<close> for an int: the nearest float, \<^verbatim>\<open>OverflowError\<close> when that would be an
  infinity.
\<close>

definition f64_of_int :: "int \<Rightarrow> error + f64" where
  "f64_of_int i =
     (let b = fl_round 11 52 (i < 0) (nat \<bar>i\<bar>) 0
      in if fl_is_inf 11 52 b then Inl OverflowError else Inr (of_nat b))"

text \<open>
  \<^verbatim>\<open>struct.pack('!f', x)\<close> narrows to binary32 and raises \<^verbatim>\<open>OverflowError\<close> when a finite
  \<open>x\<close> becomes an infinity; \<^verbatim>\<open>struct.unpack('!f', ...)\<close> widens exactly. Both conversions
  turn a signalling NaN into the quiet NaN with the same sign and payload.
\<close>

definition f64_to_f32 :: "f64 \<Rightarrow> error + f32" where
  "f64_to_f32 x =
     (let a = unat x; sg = fl_sign 11 52 a
      in if fl_is_nan 11 52 a then
           Inr (of_nat ((if sg then 2 ^ 31 else 0) + 255 * 2 ^ 23 + 2 ^ 22
                        + fl_frac 52 a div 2 ^ 29 mod 2 ^ 22))
         else if fl_is_inf 11 52 a then Inr (of_nat (fl_inf 8 23 sg))
         else (let r = fl_round 8 23 sg (fl_mant 11 52 a) (fl_expo 11 52 a)
               in if fl_is_inf 8 23 r then Inl OverflowError else Inr (of_nat r)))"

definition f32_to_f64 :: "f32 \<Rightarrow> f64" where
  "f32_to_f64 y =
     (let a = unat y; sg = fl_sign 8 23 a
      in if fl_is_nan 8 23 a then
           of_nat ((if sg then 2 ^ 63 else 0) + 2047 * 2 ^ 52 + 2 ^ 51
                   + fl_frac 23 a mod 2 ^ 22 * 2 ^ 29)
         else if fl_is_inf 8 23 a then of_nat (fl_inf 11 52 sg)
         else of_nat (fl_round 11 52 sg (fl_mant 8 23 a) (fl_expo 8 23 a)))"

text \<open>The real number a finite pattern denotes.\<close>

definition fl_value :: "nat \<Rightarrow> nat \<Rightarrow> nat \<Rightarrow> real" where
  "fl_value eb fb b =
     (if fl_sign eb fb b then - 1 else 1) * (real (fl_mant eb fb b) * 2 powi fl_expo eb fb b)"

text \<open>
  The order Python's comparisons use: a float is NaN, an infinity or a real number, an int
  is compared with a float by its exact value, and every comparison with NaN is false.
\<close>

datatype xreal = NaN | MInf | Fin real | PInf

definition f64_val :: "f64 \<Rightarrow> xreal" where
  "f64_val x =
     (let a = unat x; e = fl_expo 11 52 a;
          m = (if fl_sign 11 52 a then - 1 else 1) * real (fl_mant 11 52 a)
      in if fl_is_nan 11 52 a then NaN
         else if fl_is_inf 11 52 a then (if fl_sign 11 52 a then MInf else PInf)
         else Fin (if 0 \<le> e then m * 2 ^ nat e else m / 2 ^ nat (- e)))"

fun x_lt :: "xreal \<Rightarrow> xreal \<Rightarrow> bool" where
  "x_lt NaN y = False"
| "x_lt x NaN = False"
| "x_lt MInf y = (y \<noteq> MInf)"
| "x_lt x MInf = False"
| "x_lt PInf y = False"
| "x_lt x PInf = True"
| "x_lt (Fin a) (Fin b) = (a < b)"

fun x_le :: "xreal \<Rightarrow> xreal \<Rightarrow> bool" where
  "x_le NaN y = False"
| "x_le x NaN = False"
| "x_le MInf y = True"
| "x_le x MInf = False"
| "x_le x PInf = True"
| "x_le PInf y = False"
| "x_le (Fin a) (Fin b) = (a \<le> b)"


definition f64_1000 :: f64 where
  "f64_1000 = 0x408F400000000000"

definition f64_minus_1 :: f64 where
  "f64_minus_1 = 0xBFF0000000000000"

text \<open>
  \<^verbatim>\<open>int(t * 1000)\<close> (the int \<open>1000\<close> is converted to the float \<open>1000.0\<close> exactly) and
  \<^verbatim>\<open>ms / 1000.0\<close> for an int \<open>ms\<close> (converted to the nearest float first).
\<close>

definition millis_of_seconds :: "f64 \<Rightarrow> error + int" where
  "millis_of_seconds t = f64_to_int (f64_mul t f64_1000)"

definition seconds_of_millis :: "int \<Rightarrow> error + f64" where
  "seconds_of_millis ms =
     (case f64_of_int ms of Inl e \<Rightarrow> Inl e | Inr x \<Rightarrow> f64_div x f64_1000)"

subsection \<open>Dynamically typed values and the built-in conversions\<close>

datatype pyval =
    PyNone
  | PyBool bool
  | PyInt int
  | PyFloat f64
  | PyStr pystr
  | PyBytes "byte list"

text \<open>
  The parts of \<^verbatim>\<open>int()\<close>, \<^verbatim>\<open>float()\<close> and \<^verbatim>\<open>str()\<close> that parse or print text belong to
  the Python runtime; the embedding takes them as parameters.
\<close>

record pyenv =
  int_of_text :: "pyval \<Rightarrow> error + int"
  float_of_text :: "pyval \<Rightarrow> error + f64"
  str_of :: "pyval \<Rightarrow> pystr"

fun py_float :: "pyenv \<Rightarrow> pyval \<Rightarrow> error + f64" where
  "py_float env (PyFloat x) = Inr x"
| "py_float env (PyInt i) = f64_of_int i"
| "py_float env (PyBool b) = f64_of_int (if b then 1 else 0)"
| "py_float env PyNone = Inl TypeError"
| "py_float env v = float_of_text env v"

fun py_int :: "pyenv \<Rightarrow> pyval \<Rightarrow> error + int" where
  "py_int env (PyInt i) = Inr i"
| "py_int env (PyBool b) = Inr (if b then 1 else 0)"
| "py_int env (PyFloat x) = f64_to_int x"
| "py_int env PyNone = Inl TypeError"
| "py_int env v = int_of_text env v"

fun py_str :: "pyenv \<Rightarrow> pyval \<Rightarrow> pystr" where
  "py_str env (PyStr s) = s"
| "py_str env v = str_of env v"

fun py_bool :: "pyval \<Rightarrow> bool" where
  "py_bool PyNone = False"
| "py_bool (PyBool b) = b"
| "py_bool (PyInt i) = (i \<noteq> 0)"
| "py_bool (PyFloat x) = (unat x mod 2 ^ 63 \<noteq> 0)"
| "py_bool (PyStr s) = (s \<noteq> [])"
| "py_bool (PyBytes b) = (b \<noteq> [])"

text \<open>\<^verbatim>\<open>isinstance(value, (int, float))\<close>; \<^verbatim>\<open>bool\<close> is a subclass of \<^verbatim>\<open>int\<close>.\<close>

fun is_numeric :: "pyval \<Rightarrow> bool" where
  "is_numeric (PyInt i) = True"
| "is_numeric (PyBool b) = True"
| "is_numeric (PyFloat x) = True"
| "is_numeric v = False"

text \<open>The number a numeric value is compared as.\<close>

fun num_val :: "pyval \<Rightarrow> xreal" where
  "num_val (PyInt i) = Fin (real_of_int i)"
| "num_val (PyBool b) = Fin (if b then 1 else 0)"
| "num_val (PyFloat x) = f64_val x"
| "num_val v = NaN"

text \<open>The \<^verbatim>\<open>struct\<close> formats d, f and ?.\<close>

definition pack_f64 :: "f64 \<Rightarrow> byte list" where
  "pack_f64 x = be_bytes 8 (unat x)"

definition unpack_f64 :: "byte list \<Rightarrow> error + f64" where
  "unpack_f64 bs = (if length bs = 8 then Inr (of_nat (be_nat bs)) else Inl StructError)"

definition pack_f32 :: "f64 \<Rightarrow> error + byte list" where
  "pack_f32 x = (case f64_to_f32 x of Inl e \<Rightarrow> Inl e | Inr y \<Rightarrow> Inr (be_bytes 4 (unat y)))"

definition unpack_f32 :: "byte list \<Rightarrow> error + f64" where
  "unpack_f32 bs =
     (if length bs = 4 then Inr (f32_to_f64 (of_nat (be_nat bs))) else Inl StructError)"

text \<open>
  Format d applied to a Python object: a float, or an int converted to the nearest float.
  Whatever cannot be converted, an int beyond the floats included, raises \<^verbatim>\<open>struct.error\<close>.
\<close>

fun pack_d :: "pyval \<Rightarrow> error + byte list" where
  "pack_d (PyFloat x) = Inr (pack_f64 x)"
| "pack_d (PyInt i) =
     (case f64_of_int i of Inl e \<Rightarrow> Inl StructError | Inr x \<Rightarrow> Inr (pack_f64 x))"
| "pack_d (PyBool b) =
     (case f64_of_int (if b then 1 else 0) of
        Inl e \<Rightarrow> Inl StructError
      | Inr x \<Rightarrow> Inr (pack_f64 x))"
| "pack_d v = Inl StructError"

definition pack_bool :: "bool \<Rightarrow> byte list" where
  "pack_bool b = [if b then 1 else 0]"

definition unpack_bool :: "byte list \<Rightarrow> error + bool" where
  "unpack_bool bs = (if length bs = 1 then Inr (hd bs \<noteq> 0) else Inl StructError)"

subsection \<open>UTF-8 (\<^verbatim>\<open>str.encode('utf-8')\<close> and \<^verbatim>\<open>bytes.decode('utf-8')\<close>)\<close>

definition utf8_char :: "nat \<Rightarrow> error + byte list" where
  "utf8_char c =
     (if c < 0x80 then Inr [of_nat c]
      else if c < 0x800 then Inr [of_nat (0xC0 + c div 64), of_nat (0x80 + c mod 64)]
      else if c < 0x10000 then
        (if 0xD800 \<le> c \<and> c \<le> 0xDFFF then Inl UnicodeEncodeError
         else Inr [of_nat (0xE0 + c div 4096), of_nat (0x80 + c div 64 mod 64),
                   of_nat (0x80 + c mod 64)])
      else if c < 0x110000 then
        Inr [of_nat (0xF0 + c div 262144), of_nat (0x80 + c div 4096 mod 64),
             of_nat (0x80 + c div 64 mod 64), of_nat (0x80 + c mod 64)]
      else Inl UnicodeEncodeError)"

fun utf8_encode :: "pystr \<Rightarrow> error + byte list" where
  "utf8_encode [] = Inr []"
| "utf8_encode (c # cs) =
     (case utf8_char c of
        Inl e \<Rightarrow> Inl e
      | Inr b \<Rightarrow> (case utf8_encode cs of Inl e \<Rightarrow> Inl e | Inr bs \<Rightarrow> Inr (b @ bs)))"

definition is_cont :: "byte \<Rightarrow> bool" where
  "is_cont b = (0x80 \<le> unat b \<and> unat b < 0xC0)"

definition cons_char :: "nat \<Rightarrow> error + pystr \<Rightarrow> error + pystr" where
  "cons_char c r = (case r of Inl e \<Rightarrow> Inl e | Inr cs \<Rightarrow> Inr (c # cs))"

text \<open>
  The strict decoder: continuation bytes must follow the lead byte, and overlong forms,
  surrogates and values beyond \<open>0x10FFFF\<close> are rejected.
\<close>

fun utf8_decode :: "byte list \<Rightarrow> error + pystr" where
  "utf8_decode [] = Inr []"
| "utf8_decode (b0 # bs) =
     (if unat b0 < 0x80 then cons_char (unat b0) (utf8_decode bs)
      else if 0xC0 \<le> unat b0 \<and> unat b0 < 0xE0 then
        (case bs of
           b1 # r \<Rightarrow>
             (let c = (unat b0 - 0xC0) * 64 + (unat b1 - 0x80)
              in if is_cont b1 \<and> 0x80 \<le> c then cons_char c (utf8_decode r)
                 else Inl UnicodeDecodeError)
         | _ \<Rightarrow> Inl UnicodeDecodeError)
      else if 0xE0 \<le> unat b0 \<and> unat b0 < 0xF0 then
        (case bs of
           b1 # b2 # r \<Rightarrow>
             (let c = (unat b0 - 0xE0) * 4096 + (unat b1 - 0x80) * 64 + (unat b2 - 0x80)
              in if is_cont b1 \<and> is_cont b2 \<and> 0x800 \<le> c \<and> \<not> (0xD800 \<le> c \<and> c \<le> 0xDFFF)
                 then cons_char c (utf8_decode r)
                 else Inl UnicodeDecodeError)
         | _ \<Rightarrow> Inl UnicodeDecodeError)
      else if 0xF0 \<le> unat b0 \<and> unat b0 < 0xF8 then
        (case bs of
           b1 # b2 # b3 # r \<Rightarrow>
             (let c = (unat b0 - 0xF0) * 262144 + (unat b1 - 0x80) * 4096
                      + (unat b2 - 0x80) * 64 + (unat b3 - 0x80)
              in if is_cont b1 \<and> is_cont b2 \<and> is_cont b3 \<and> 0x10000 \<le> c \<and> c < 0x110000
                 then cons_char c (utf8_decode r)
                 else Inl UnicodeDecodeError)
         | _ \<Rightarrow> Inl UnicodeDecodeError)
      else Inl UnicodeDecodeError)"


section \<open>protocol.py\<close>

definition BCMP_PROTOCOL_VERSION :: int where
  "BCMP_PROTOCOL_VERSION = 0x01"

definition BCMP_HEADER_MAGIC :: int where
  "BCMP_HEADER_MAGIC = 0xBC"

definition MAX_PAYLOAD_SIZE :: nat where
  "MAX_PAYLOAD_SIZE = 1400"

datatype MessageType =
    HEARTBEAT | SENSOR_DATA | CONFIG | ACK | NACK | DISCOVERY
  | SUBSCRIBE | UNSUBSCRIBE | PUBLISH | REQUEST | RESPONSE

fun MessageType_value :: "MessageType \<Rightarrow> int" where
  "MessageType_value HEARTBEAT = 0x00"
| "MessageType_value SENSOR_DATA = 0x01"
| "MessageType_value CONFIG = 0x02"
| "MessageType_value ACK = 0x03"
| "MessageType_value NACK = 0x04"
| "MessageType_value DISCOVERY = 0x05"
| "MessageType_value SUBSCRIBE = 0x06"
| "MessageType_value UNSUBSCRIBE = 0x07"
| "MessageType_value PUBLISH = 0x08"
| "MessageType_value REQUEST = 0x09"
| "MessageType_value RESPONSE = 0x0A"

text \<open>The enum call \<^verbatim>\<open>MessageType(v)\<close>: \<^verbatim>\<open>ValueError\<close> for a value that names no member.\<close>

definition MessageType_of :: "int \<Rightarrow> error + MessageType" where
  "MessageType_of v =
     (if v = 0x00 then Inr HEARTBEAT
      else if v = 0x01 then Inr SENSOR_DATA
      else if v = 0x02 then Inr CONFIG
      else if v = 0x03 then Inr ACK
      else if v = 0x04 then Inr NACK
      else if v = 0x05 then Inr DISCOVERY
      else if v = 0x06 then Inr SUBSCRIBE
      else if v = 0x07 then Inr UNSUBSCRIBE
      else if v = 0x08 then Inr PUBLISH
      else if v = 0x09 then Inr REQUEST
      else if v = 0x0A then Inr RESPONSE
      else Inl (InvalidMessageType v))"

datatype DataType =
    FLOAT32 | FLOAT64 | INT8 | INT16 | INT32 | INT64
  | UINT8 | UINT16 | UINT32 | UINT64 | STRING | BYTES | BOOL

fun DataType_value :: "DataType \<Rightarrow> int" where
  "DataType_value FLOAT32 = 0x01"
| "DataType_value FLOAT64 = 0x02"
| "DataType_value INT8 = 0x03"
| "DataType_value INT16 = 0x04"
| "DataType_value INT32 = 0x05"
| "DataType_value INT64 = 0x06"
| "DataType_value UINT8 = 0x07"
| "DataType_value UINT16 = 0x08"
| "DataType_value UINT32 = 0x09"
| "DataType_value UINT64 = 0x0A"
| "DataType_value STRING = 0x0B"
| "DataType_value BYTES = 0x0C"
| "DataType_value BOOL = 0x0D"

subsection \<open>\<^verbatim>\<open>BristlemouthTopic\<close>\<close>

record BristlemouthTopic =
  name :: pystr
  topic_version :: int
  node_id :: "pystr option"

text \<open>The dataclass constructor, that is \<^verbatim>\<open>__init__\<close> followed by \<^verbatim>\<open>__post_init__\<close>.\<close>

definition new_topic :: "pystr \<Rightarrow> int \<Rightarrow> pystr option \<Rightarrow> error + BristlemouthTopic" where
  "new_topic nm ver nid =
     (if nm = [] then Inl TopicNameEmpty
      else if length nm > 64 then Inl TopicNameTooLong
      else Inr \<lparr>name = nm, topic_version = ver, node_id = nid\<rparr>)"

definition topic_to_bytes :: "BristlemouthTopic \<Rightarrow> error + byte list" where
  "topic_to_bytes t =
     (case utf8_encode (name t) of
        Inl e \<Rightarrow> Inl e
      | Inr name_bytes \<Rightarrow>
          (case pack_uint 1 (topic_version t) of
             Inl e \<Rightarrow> Inl e
           | Inr v \<Rightarrow>
               (case pack_uint 2 (int (length name_bytes)) of
                  Inl e \<Rightarrow> Inl e
                | Inr l \<Rightarrow> Inr (v @ l @ name_bytes))))"

definition topic_from_bytes :: "byte list \<Rightarrow> error + BristlemouthTopic" where
  "topic_from_bytes data =
     (case data of
        [] \<Rightarrow> Inl IndexError
      | ver # _ \<Rightarrow>
          (case unpack_uint 2 (slice 1 3 data) of
             Inl e \<Rightarrow> Inl e
           | Inr name_len \<Rightarrow>
               (case utf8_decode (slice 3 (3 + nat name_len) data) of
                  Inl e \<Rightarrow> Inl e
                | Inr nm \<Rightarrow> new_topic nm (uint ver) None)))"

subsection \<open>\<^verbatim>\<open>BristlemouthMessage\<close>\<close>

record BristlemouthMessage =
  topic :: BristlemouthTopic
  payload :: "byte list"
  message_type :: MessageType
  version :: int
  sequence_number :: int
  timestamp :: f64
  source_node_id :: "byte list option"

text \<open>
  The constructor; \<open>now\<close> is what \<^verbatim>\<open>time.time()\<close> returns when no timestamp is given.
\<close>

definition new_message ::
  "f64 \<Rightarrow> BristlemouthTopic \<Rightarrow> byte list \<Rightarrow> MessageType \<Rightarrow> int \<Rightarrow> int \<Rightarrow> f64 option
     \<Rightarrow> byte list option \<Rightarrow> error + BristlemouthMessage" where
  "new_message now tp pl mt ver seq ts src =
     (if length pl > MAX_PAYLOAD_SIZE then Inl (PayloadTooLarge (length pl))
      else Inr \<lparr>topic = tp, payload = pl, message_type = mt, version = ver,
                sequence_number = seq,
                timestamp = (case ts of None \<Rightarrow> now | Some t \<Rightarrow> t),
                source_node_id = src\<rparr>)"

text \<open>The constructor called with a timestamp, where the clock is not read.\<close>

definition new_message_at ::
  "BristlemouthTopic \<Rightarrow> byte list \<Rightarrow> MessageType \<Rightarrow> int \<Rightarrow> int \<Rightarrow> f64
     \<Rightarrow> byte list option \<Rightarrow> error + BristlemouthMessage" where
  "new_message_at tp pl mt ver seq ts src = new_message ts tp pl mt ver seq (Some ts) src"

text \<open>Format \<^verbatim>\<open>6s\<close>: the bytes are cut or padded with zero bytes to six.\<close>

definition pack_6s :: "byte list \<Rightarrow> byte list" where
  "pack_6s bs = take 6 bs @ replicate (6 - length bs) 0"

text \<open>\<^verbatim>\<open>self.source_node_id or b'\x00' * 6\<close>: \<^verbatim>\<open>None\<close> and the empty bytes are both falsy.\<close>

definition source_or_zeros :: "byte list option \<Rightarrow> byte list" where
  "source_or_zeros src =
     (case src of None \<Rightarrow> replicate 6 0 | Some bs \<Rightarrow> if bs = [] then replicate 6 0 else bs)"

definition pack_header :: "BristlemouthMessage \<Rightarrow> error + byte list" where
  "pack_header m =
     (case millis_of_seconds (timestamp m) of
        Inl e \<Rightarrow> Inl e
      | Inr ms \<Rightarrow>
          (case pack_uint 1 BCMP_HEADER_MAGIC of Inl e \<Rightarrow> Inl e | Inr b0 \<Rightarrow>
          (case pack_uint 1 (version m) of Inl e \<Rightarrow> Inl e | Inr b1 \<Rightarrow>
          (case pack_uint 2 (MessageType_value (message_type m)) of Inl e \<Rightarrow> Inl e | Inr b2 \<Rightarrow>
          (case pack_uint 4 (sequence_number m) of Inl e \<Rightarrow> Inl e | Inr b3 \<Rightarrow>
          (case pack_uint 8 ms of Inl e \<Rightarrow> Inl e | Inr b4 \<Rightarrow>
             Inr (b0 @ b1 @ b2 @ b3 @ b4 @ pack_6s (source_or_zeros (source_node_id m)))))))))"

definition pack_without_checksum :: "BristlemouthMessage \<Rightarrow> error + byte list" where
  "pack_without_checksum m =
     (case topic_to_bytes (topic m) of
        Inl e \<Rightarrow> Inl e
      | Inr topic_bytes \<Rightarrow>
          (case pack_header m of
             Inl e \<Rightarrow> Inl e
           | Inr header \<Rightarrow>
               (case pack_uint 2 (int (length topic_bytes)) of
                  Inl e \<Rightarrow> Inl e
                | Inr topic_len \<Rightarrow>
                    (case pack_uint 2 (int (length (payload m))) of
                       Inl e \<Rightarrow> Inl e
                     | Inr payload_len \<Rightarrow>
                         Inr (header @ topic_len @ topic_bytes @ payload_len @ payload m)))))"

text \<open>
  \<^verbatim>\<open>hashlib.md5(data).digest()[:4]\<close>. The digest function of the Python library is a
  parameter \<open>md5\<close> of the embedding; its value is the 128-bit digest, whose sixteen bytes
  are taken most significant first.
\<close>

definition digest_bytes :: "128 word \<Rightarrow> byte list" where
  "digest_bytes d = be_bytes 16 (unat d)"

definition calculate_checksum ::
  "(byte list \<Rightarrow> 128 word) \<Rightarrow> BristlemouthMessage \<Rightarrow> error + byte list" where
  "calculate_checksum md5 m =
     (case pack_without_checksum m of
        Inl e \<Rightarrow> Inl e
      | Inr data \<Rightarrow> Inr (take 4 (digest_bytes (md5 data))))"

definition to_bytes :: "(byte list \<Rightarrow> 128 word) \<Rightarrow> BristlemouthMessage \<Rightarrow> error + byte list" where
  "to_bytes md5 m =
     (case pack_without_checksum m of
        Inl e \<Rightarrow> Inl e
      | Inr data \<Rightarrow>
          (case calculate_checksum md5 m of
             Inl e \<Rightarrow> Inl e
           | Inr checksum \<Rightarrow> Inr (data @ checksum)))"

definition from_bytes :: "(byte list \<Rightarrow> 128 word) \<Rightarrow> byte list \<Rightarrow> error + BristlemouthMessage" where
  "from_bytes md5 data =
     (if length data < 22 then Inl MessageTooShort
      else if int (be_nat (slice 0 1 data)) \<noteq> BCMP_HEADER_MAGIC then Inl (InvalidMagic (hd data))
      else
        (case unpack_uint 2 (slice 22 24 data) of
           Inl e \<Rightarrow> Inl e
         | Inr topic_len \<Rightarrow>
        (case topic_from_bytes (slice 24 (24 + nat topic_len) data) of
           Inl e \<Rightarrow> Inl e
         | Inr tp \<Rightarrow>
        (case unpack_uint 2 (slice (24 + nat topic_len) (26 + nat topic_len) data) of
           Inl e \<Rightarrow> Inl e
         | Inr payload_len \<Rightarrow>
        (case MessageType_of (int (be_nat (slice 2 4 data))) of
           Inl e \<Rightarrow> Inl e
         | Inr mt \<Rightarrow>
        (case seconds_of_millis (int (be_nat (slice 8 16 data))) of
           Inl e \<Rightarrow> Inl e
         | Inr ts \<Rightarrow>
        (case new_message_at tp
                (slice (26 + nat topic_len) (26 + nat topic_len + nat payload_len) data)
                mt (int (be_nat (slice 1 2 data))) (int (be_nat (slice 4 8 data)))
                ts (Some (slice 16 22 data)) of
           Inl e \<Rightarrow> Inl e
         | Inr msg \<Rightarrow>
        (case calculate_checksum md5 msg of
           Inl e \<Rightarrow> Inl e
         | Inr expected_checksum \<Rightarrow>
             if slice (26 + nat topic_len + nat payload_len)
                      (30 + nat topic_len + nat payload_len) data \<noteq> expected_checksum
             then Inl ChecksumMismatch
             else Inr msg))))))))"


text \<open>
  \<^verbatim>\<open>from_bytes\<close> up to the point where the message object exists: the decoded message
  together with \<^verbatim>\<open>received_checksum\<close>. It serves to state what the final comparison of
  \<^verbatim>\<open>from_bytes\<close> compares.
\<close>

definition decode_fields :: "byte list \<Rightarrow> error + BristlemouthMessage \<times> byte list" where
  "decode_fields data =
     (if length data < 22 then Inl MessageTooShort
      else if int (be_nat (slice 0 1 data)) \<noteq> BCMP_HEADER_MAGIC then Inl (InvalidMagic (hd data))
      else
        (case unpack_uint 2 (slice 22 24 data) of
           Inl e \<Rightarrow> Inl e
         | Inr topic_len \<Rightarrow>
        (case topic_from_bytes (slice 24 (24 + nat topic_len) data) of
           Inl e \<Rightarrow> Inl e
         | Inr tp \<Rightarrow>
        (case unpack_uint 2 (slice (24 + nat topic_len) (26 + nat topic_len) data) of
           Inl e \<Rightarrow> Inl e
         | Inr payload_len \<Rightarrow>
        (case MessageType_of (int (be_nat (slice 2 4 data))) of
           Inl e \<Rightarrow> Inl e
         | Inr mt \<Rightarrow>
        (case seconds_of_millis (int (be_nat (slice 8 16 data))) of
           Inl e \<Rightarrow> Inl e
         | Inr ts \<Rightarrow>
        (case new_message_at tp
                (slice (26 + nat topic_len) (26 + nat topic_len + nat payload_len) data)
                mt (int (be_nat (slice 1 2 data))) (int (be_nat (slice 4 8 data)))
                ts (Some (slice 16 22 data)) of
           Inl e \<Rightarrow> Inl e
         | Inr msg \<Rightarrow>
             Inr (msg, slice (26 + nat topic_len + nat payload_len)
                         (30 + nat topic_len + nat payload_len) data))))))))"

subsection \<open>\<^verbatim>\<open>encode_sensor_value\<close> and \<^verbatim>\<open>decode_sensor_value\<close>\<close>

text \<open>
  The \<^verbatim>\<open>data_type\<close> argument is compared with the members of the \<^verbatim>\<open>IntEnum\<close>, so it is
  modelled by its integer value; a value that equals no member reaches the final
  \<^verbatim>\<open>else\<close>.
\<close>

definition pack_int_of ::
  "pyenv \<Rightarrow> (int \<Rightarrow> error + byte list) \<Rightarrow> pyval \<Rightarrow> error + byte list" where
  "pack_int_of env pack v = (case py_int env v of Inl e \<Rightarrow> Inl e | Inr i \<Rightarrow> pack i)"

definition encode_sensor_value :: "pyenv \<Rightarrow> pyval \<Rightarrow> int \<Rightarrow> error + byte list" where
  "encode_sensor_value env v data_type =
     (if data_type = DataType_value FLOAT32 then
        (case py_float env v of Inl e \<Rightarrow> Inl e | Inr x \<Rightarrow> pack_f32 x)
      else if data_type = DataType_value FLOAT64 then
        (case py_float env v of Inl e \<Rightarrow> Inl e | Inr x \<Rightarrow> Inr (pack_f64 x))
      else if data_type = DataType_value INT8 then pack_int_of env (pack_sint 1) v
      else if data_type = DataType_value INT16 then pack_int_of env (pack_sint 2) v
      else if data_type = DataType_value INT32 then pack_int_of env (pack_sint 4) v
      else if data_type = DataType_value INT64 then pack_int_of env (pack_sint 8) v
      else if data_type = DataType_value UINT8 then pack_int_of env (pack_uint 1) v
      else if data_type = DataType_value UINT16 then pack_int_of env (pack_uint 2) v
      else if data_type = DataType_value UINT32 then pack_int_of env (pack_uint 4) v
      else if data_type = DataType_value UINT64 then pack_int_of env (pack_uint 8) v
      else if data_type = DataType_value STRING then
        (case utf8_encode (py_str env v) of
           Inl e \<Rightarrow> Inl e
         | Inr encoded \<Rightarrow>
             (case pack_uint 2 (int (length encoded)) of
                Inl e \<Rightarrow> Inl e
              | Inr l \<Rightarrow> Inr (l @ encoded)))
      else if data_type = DataType_value BYTES then
        (case v of
           PyBytes b \<Rightarrow>
             (case pack_uint 2 (int (length b)) of Inl e \<Rightarrow> Inl e | Inr l \<Rightarrow> Inr (l @ b))
         | _ \<Rightarrow> Inl BytesRequired)
      else if data_type = DataType_value BOOL then Inr (pack_bool (py_bool v))
      else Inl (UnknownDataType data_type))"

definition unpack_int_as ::
  "(byte list \<Rightarrow> error + int) \<Rightarrow> nat \<Rightarrow> byte list \<Rightarrow> error + pyval \<times> int" where
  "unpack_int_as unpack n data =
     (case unpack (slice 0 n data) of Inl e \<Rightarrow> Inl e | Inr i \<Rightarrow> Inr (PyInt i, int n))"

definition decode_sensor_value :: "byte list \<Rightarrow> int \<Rightarrow> error + pyval \<times> int" where
  "decode_sensor_value data data_type =
     (if data_type = DataType_value FLOAT32 then
        (case unpack_f32 (slice 0 4 data) of Inl e \<Rightarrow> Inl e | Inr x \<Rightarrow> Inr (PyFloat x, 4))
      else if data_type = DataType_value FLOAT64 then
        (case unpack_f64 (slice 0 8 data) of Inl e \<Rightarrow> Inl e | Inr x \<Rightarrow> Inr (PyFloat x, 8))
      else if data_type = DataType_value INT8 then unpack_int_as (unpack_sint 1) 1 data
      else if data_type = DataType_value INT16 then unpack_int_as (unpack_sint 2) 2 data
      else if data_type = DataType_value INT32 then unpack_int_as (unpack_sint 4) 4 data
      else if data_type = DataType_value INT64 then unpack_int_as (unpack_sint 8) 8 data
      else if data_type = DataType_value UINT8 then unpack_int_as (unpack_uint 1) 1 data
      else if data_type = DataType_value UINT16 then unpack_int_as (unpack_uint 2) 2 data
      else if data_type = DataType_value UINT32 then unpack_int_as (unpack_uint 4) 4 data
      else if data_type = DataType_value UINT64 then unpack_int_as (unpack_uint 8) 8 data
      else if data_type = DataType_value STRING then
        (case unpack_uint 2 (slice 0 2 data) of
           Inl e \<Rightarrow> Inl e
         | Inr len \<Rightarrow>
             (case utf8_decode (slice 2 (2 + nat len) data) of
                Inl e \<Rightarrow> Inl e
              | Inr s \<Rightarrow> Inr (PyStr s, 2 + len)))
      else if data_type = DataType_value BYTES then
        (case unpack_uint 2 (slice 0 2 data) of
           Inl e \<Rightarrow> Inl e
         | Inr len \<Rightarrow> Inr (PyBytes (slice 2 (2 + nat len) data), 2 + len))
      else if data_type = DataType_value BOOL then
        (case unpack_bool (slice 0 1 data) of Inl e \<Rightarrow> Inl e | Inr b \<Rightarrow> Inr (PyBool b, 1))
      else Inl (UnknownDataType data_type))"

section \<open>sensors.py\<close>

datatype SensorUnit =
    CELSIUS | FAHRENHEIT | KELVIN | DECIBAR | PASCAL | BAR | PSU | PPT
  | METERS_PER_SECOND | CENTIMETERS_PER_SECOND | NTU | FNU | METERS | DEGREES
  | HERTZ | MILLIGRAMS_PER_LITER | PERCENT

record SensorReading =
  reading_value :: pyval
  reading_unit :: SensorUnit
  reading_timestamp :: f64
  quality :: int
  reading_sensor_id :: "pystr option"
  depth_m :: "f64 option"

text \<open>The dataclass constructor with its \<^verbatim>\<open>__post_init__\<close> check, the timestamp given.\<close>

definition new_reading ::
  "pyval \<Rightarrow> SensorUnit \<Rightarrow> f64 \<Rightarrow> int \<Rightarrow> pystr option \<Rightarrow> f64 option \<Rightarrow> error + SensorReading" where
  "new_reading v u ts q sid depth =
     (if \<not> (0 \<le> q \<and> q \<le> 100) then Inl QualityOutOfRange
      else Inr \<lparr>reading_value = v, reading_unit = u, reading_timestamp = ts, quality = q,
                reading_sensor_id = sid, depth_m = depth\<rparr>)"

definition reading_to_bytes :: "SensorReading \<Rightarrow> error + byte list" where
  "reading_to_bytes r =
     (let depth = (case depth_m r of None \<Rightarrow> f64_minus_1 | Some d \<Rightarrow> d)
      in case millis_of_seconds (reading_timestamp r) of
           Inl e \<Rightarrow> Inl e
         | Inr ms \<Rightarrow>
             (case pack_d (reading_value r) of Inl e \<Rightarrow> Inl e | Inr b0 \<Rightarrow>
             (case pack_uint 8 ms of Inl e \<Rightarrow> Inl e | Inr b1 \<Rightarrow>
             (case pack_uint 1 (quality r) of Inl e \<Rightarrow> Inl e | Inr b2 \<Rightarrow>
             (case pack_f32 depth of Inl e \<Rightarrow> Inl e | Inr b3 \<Rightarrow>
                Inr (b0 @ b1 @ b2 @ b3))))))"

text \<open>\<^verbatim>\<open>depth if depth >= 0 else None\<close>.\<close>

definition depth_or_none :: "f64 \<Rightarrow> f64 option" where
  "depth_or_none depth = (if x_le (Fin 0) (f64_val depth) then Some depth else None)"

definition reading_from_bytes :: "byte list \<Rightarrow> SensorUnit \<Rightarrow> error + SensorReading" where
  "reading_from_bytes data u =
     (let d = slice 0 21 data
      in if length d \<noteq> 21 then Inl StructError
         else
           (case unpack_f64 (slice 0 8 d) of Inl e \<Rightarrow> Inl e | Inr v \<Rightarrow>
           (case unpack_f32 (slice 17 21 d) of Inl e \<Rightarrow> Inl e | Inr depth \<Rightarrow>
           (case seconds_of_millis (int (be_nat (slice 8 16 d))) of Inl e \<Rightarrow> Inl e | Inr ts \<Rightarrow>
              new_reading (PyFloat v) u ts (int (be_nat (slice 16 17 d))) None
                (depth_or_none depth)))))"

subsection \<open>\<^verbatim>\<open>BaseSensor\<close> and its five subclasses\<close>

datatype sensor_class = Temperature | Pressure | Salinity | CurrentMeter | Turbidity

record BaseSensor =
  sensor_class :: sensor_class
  sensor_id :: pystr
  sensor_topic :: BristlemouthTopic
  default_unit :: SensorUnit
  min_value :: f64
  max_value :: f64
  sensor_sequence_number :: int
  readings :: "SensorReading list"
  direction_readings :: "(pyval \<times> f64) list"

definition pystr_of :: "string \<Rightarrow> pystr" where
  "pystr_of s = map of_char s"

definition spotter_topic :: "string \<Rightarrow> BristlemouthTopic" where
  "spotter_topic s = \<lparr>name = pystr_of s, topic_version = 1, node_id = None\<rparr>"

definition new_sensor ::
  "sensor_class \<Rightarrow> pystr \<Rightarrow> BristlemouthTopic \<Rightarrow> SensorUnit \<Rightarrow> f64 \<Rightarrow> f64 \<Rightarrow> BaseSensor" where
  "new_sensor k sid tp u lo hi =
     \<lparr>sensor_class = k, sensor_id = sid, sensor_topic = tp, default_unit = u,
      min_value = lo, max_value = hi, sensor_sequence_number = 0, readings = [],
      direction_readings = []\<rparr>"

definition TemperatureSensor :: "pystr \<Rightarrow> f64 \<Rightarrow> f64 \<Rightarrow> BaseSensor" where
  "TemperatureSensor sid min_temp_c max_temp_c =
     new_sensor Temperature sid (spotter_topic ''spotter/sensor/temperature'') CELSIUS
       min_temp_c max_temp_c"

definition PressureSensor :: "pystr \<Rightarrow> f64 \<Rightarrow> f64 \<Rightarrow> BaseSensor" where
  "PressureSensor sid min_pressure_dbar max_pressure_dbar =
     new_sensor Pressure sid (spotter_topic ''spotter/sensor/pressure'') DECIBAR
       min_pressure_dbar max_pressure_dbar"

definition SalinitySensor :: "pystr \<Rightarrow> f64 \<Rightarrow> f64 \<Rightarrow> BaseSensor" where
  "SalinitySensor sid min_salinity_psu max_salinity_psu =
     new_sensor Salinity sid (spotter_topic ''spotter/sensor/salinity'') PSU
       min_salinity_psu max_salinity_psu"

definition CurrentMeterSensor :: "pystr \<Rightarrow> f64 \<Rightarrow> BaseSensor" where
  "CurrentMeterSensor sid max_speed_ms =
     new_sensor CurrentMeter sid (spotter_topic ''spotter/sensor/current'') METERS_PER_SECOND
       0 max_speed_ms"

definition TurbiditySensor :: "pystr \<Rightarrow> f64 \<Rightarrow> f64 \<Rightarrow> BaseSensor" where
  "TurbiditySensor sid min_turbidity_ntu max_turbidity_ntu =
     new_sensor Turbidity sid (spotter_topic ''spotter/sensor/turbidity'') NTU
       min_turbidity_ntu max_turbidity_ntu"

text \<open>
  \<^verbatim>\<open>validate_reading\<close>: the five subclasses have the same three checks in the same order and
  differ in the wording of the message only.
\<close>

definition validate_reading :: "BaseSensor \<Rightarrow> pyval \<Rightarrow> bool \<times> validator_msg" where
  "validate_reading s v =
     (if \<not> is_numeric v then (False, MustBeNumeric)
      else if x_lt (num_val v) (f64_val (min_value s)) then (False, BelowMinimum)
      else if x_lt (f64_val (max_value s)) (num_val v) then (False, AboveMaximum)
      else (True, Valid))"



definition wrap_reading ::
  "BaseSensor \<Rightarrow> SensorReading \<Rightarrow> error + BristlemouthMessage \<times> BaseSensor" where
  "wrap_reading s reading =
     (case reading_to_bytes reading of
        Inl e \<Rightarrow> Inl e
      | Inr pl \<Rightarrow>
          (case new_message_at (sensor_topic s) pl SENSOR_DATA BCMP_PROTOCOL_VERSION
                  (sensor_sequence_number s + 1) (reading_timestamp reading) None of
             Inl e \<Rightarrow> Inl e
           | Inr msg \<Rightarrow>
               Inr (msg, s\<lparr>sensor_sequence_number := sensor_sequence_number s + 1\<rparr>)))"


definition wrap_current_reading ::
  "BaseSensor \<Rightarrow> SensorReading \<Rightarrow> f64 \<Rightarrow> error + BristlemouthMessage \<times> BaseSensor" where
  "wrap_current_reading s reading direction_deg =
     (case reading_to_bytes reading of
        Inl e \<Rightarrow> Inl e
      | Inr rb \<Rightarrow>
          (case pack_f32 direction_deg of
             Inl e \<Rightarrow> Inl e
           | Inr db \<Rightarrow>
               (case new_message_at (sensor_topic s) (rb @ db) SENSOR_DATA BCMP_PROTOCOL_VERSION
                       (sensor_sequence_number s + 1) (reading_timestamp reading) None of
                  Inl e \<Rightarrow> Inl e
                | Inr msg \<Rightarrow>
                    Inr (msg, s\<lparr>sensor_sequence_number := sensor_sequence_number s + 1\<rparr>))))"


section \<open>spotter.py\<close>

datatype TransmissionMode = SATELLITE | CELLULAR | HYBRID | LOCAL

datatype ConnectionState = DISCONNECTED | CONNECTING | CONNECTED | ERROR

record SpotterConfig =
  config_device_id :: pystr
  transmission_mode :: TransmissionMode
  sample_interval_seconds :: int
  transmit_interval_seconds :: int
  max_queue_size :: int
  enable_compression :: bool
  api_endpoint :: pystr

definition default_config :: "pystr \<Rightarrow> SpotterConfig" where
  "default_config did =
     \<lparr>config_device_id = did, transmission_mode = HYBRID, sample_interval_seconds = 60,
      transmit_interval_seconds = 3600, max_queue_size = 1000, enable_compression = True,
      api_endpoint = pystr_of ''https://api.sofarocean.com/api''\<rparr>"

record TransmissionResult =
  success :: bool
  message_count :: nat
  bytes_transmitted :: nat
  result_timestamp :: f64
  error_message :: "pystr option"
  result_mode :: "TransmissionMode option"

text \<open>
  A registered callback is a Python callable. It is modelled by its effect on the part of
  the world outside the client, of type \<open>'w\<close>: called with an event it either returns or
  raises (\<open>Some\<close> exception), leaving a new world in both cases. Callbacks that call back
  into the client are outside this model.
\<close>

type_synonym ('e, 'w) callback = "'e \<Rightarrow> 'w \<Rightarrow> error option \<times> 'w"


record 'w SpotterBuoyClient =
  config :: SpotterConfig
  device_id :: pystr
  sensors :: "pystr \<rightharpoonup> BaseSensor"
  message_queue :: "BristlemouthMessage list"
  queue_maxlen :: nat
  transmission_history :: "TransmissionResult list"
  state :: ConnectionState
  client_sequence_number :: int
  on_transmit_callbacks :: "(TransmissionResult, 'w) callback list"
  on_error_callbacks :: "(error, 'w) callback list"
  on_state_change_callbacks :: "(ConnectionState \<times> ConnectionState, 'w) callback list"

text \<open>
  \<^verbatim>\<open>__init__\<close>. \<^verbatim>\<open>deque(maxlen=n)\<close> raises \<^verbatim>\<open>ValueError\<close> for a negative \<open>n\<close> and
  \<^verbatim>\<open>OverflowError\<close> for an \<open>n\<close> beyond the largest index, \<open>2 ^ 63 - 1\<close>; the bound of the
  deque is fixed here and does not follow later changes of the configuration.
\<close>

definition new_client :: "pystr \<Rightarrow> SpotterConfig option \<Rightarrow> error + 'w SpotterBuoyClient" where
  "new_client did cfg =
     (let c = (case cfg of None \<Rightarrow> default_config did | Some c' \<Rightarrow> c')
      in if max_queue_size c < 0 then Inl DequeMaxlenNegative
         else if 2 ^ 63 \<le> max_queue_size c then Inl OverflowError
         else Inr \<lparr>config = c, device_id = did, sensors = Map.empty, message_queue = [],
                   queue_maxlen = nat (max_queue_size c), transmission_history = [],
                   state = DISCONNECTED, client_sequence_number = 0,
                   on_transmit_callbacks = [], on_error_callbacks = [],
                   on_state_change_callbacks = []\<rparr>)"

text \<open>
  \<^verbatim>\<open>deque.append\<close> on a bounded deque: the item is added on the right and, when the deque
  is then longer than its bound, one item is removed on the left.
\<close>

definition deque_append :: "nat \<Rightarrow> 'a list \<Rightarrow> 'a \<Rightarrow> 'a list" where
  "deque_append maxlen q x = (let q' = q @ [x] in if maxlen < length q' then tl q' else q')"




definition queue_reading ::
  "'w SpotterBuoyClient \<Rightarrow> BaseSensor \<Rightarrow> SensorReading
     \<Rightarrow> error + BristlemouthMessage \<times> 'w SpotterBuoyClient \<times> BaseSensor" where
  "queue_reading c sensor reading =
     (case wrap_reading sensor reading of
        Inl e \<Rightarrow> Inl e
      | Inr (message, sensor') \<Rightarrow>
          Inr (message,
               c\<lparr>message_queue := deque_append (queue_maxlen c) (message_queue c) message\<rparr>,
               sensor'))"

definition queue_message :: "'w SpotterBuoyClient \<Rightarrow> BristlemouthMessage \<Rightarrow> 'w SpotterBuoyClient" where
  "queue_message c message =
     c\<lparr>message_queue := deque_append (queue_maxlen c) (message_queue c) message\<rparr>"

text \<open>
  \<^verbatim>\<open>queue_raw_data\<close> counts the sequence number up before it builds the message, so the
  counter has moved also when the constructor raises.
\<close>

definition queue_raw_data ::
  "f64 \<Rightarrow> 'w SpotterBuoyClient \<Rightarrow> BristlemouthTopic \<Rightarrow> byte list \<Rightarrow> MessageType
     \<Rightarrow> (error + BristlemouthMessage) \<times> 'w SpotterBuoyClient" where
  "queue_raw_data now c tp data mt =
     (let c1 = c\<lparr>client_sequence_number := client_sequence_number c + 1\<rparr>
      in case new_message now tp data mt BCMP_PROTOCOL_VERSION (client_sequence_number c1)
                None None of
           Inl e \<Rightarrow> (Inl e, c1)
         | Inr message \<Rightarrow>
             (Inr message,
              c1\<lparr>message_queue := deque_append (queue_maxlen c1) (message_queue c1) message\<rparr>))"

definition get_queue_size :: "'w SpotterBuoyClient \<Rightarrow> nat" where
  "get_queue_size c = length (message_queue c)"





text \<open>
  \<^verbatim>\<open>history[-limit:]\<close> for a truthy \<open>limit\<close>: a positive limit keeps that many last entries, a
  negative limit \<open>-k\<close> is the slice \<^verbatim>\<open>history[k:]\<close>.
\<close>

definition get_transmission_history ::
  "'w SpotterBuoyClient \<Rightarrow> int option \<Rightarrow> TransmissionResult list" where
  "get_transmission_history c limit =
     (case limit of
        None \<Rightarrow> transmission_history c
      | Some l \<Rightarrow>
          if l = 0 then transmission_history c
          else if 0 < l then drop (length (transmission_history c) - nat l) (transmission_history c)
          else drop (nat (- l)) (transmission_history c))"





text \<open>A sequence of enqueue calls, and the client each call leaves, raised or not.\<close>

datatype enqueue =
    QueueReading BaseSensor SensorReading
  | QueueMessage BristlemouthMessage
  | QueueRawData f64 BristlemouthTopic "byte list" MessageType

fun apply_enqueue :: "'w SpotterBuoyClient \<Rightarrow> enqueue \<Rightarrow> 'w SpotterBuoyClient" where
  "apply_enqueue c (QueueReading sensor reading) =
     (case queue_reading c sensor reading of Inl e \<Rightarrow> c | Inr (message, c', sensor') \<Rightarrow> c')"
| "apply_enqueue c (QueueMessage message) = queue_message c message"
| "apply_enqueue c (QueueRawData now tp data mt) = snd (queue_raw_data now c tp data mt)"

text \<open>
  The message an enqueue call puts on the queue: the one \<^verbatim>\<open>queue_reading\<close> and
  \<^verbatim>\<open>queue_raw_data\<close> return, the argument of \<^verbatim>\<open>queue_message\<close>, and none when the call
  raises. \<open>enqueued\<close> collects them over a sequence of calls, oldest first.
\<close>

fun enqueue_result :: "'w SpotterBuoyClient \<Rightarrow> enqueue \<Rightarrow> BristlemouthMessage option" where
  "enqueue_result c (QueueReading sensor reading) =
     (case queue_reading c sensor reading of
        Inl e \<Rightarrow> None
      | Inr (message, c', sensor') \<Rightarrow> Some message)"
| "enqueue_result c (QueueMessage message) = Some message"
| "enqueue_result c (QueueRawData now tp data mt) =
     (case fst (queue_raw_data now c tp data mt) of Inl e \<Rightarrow> None | Inr message \<Rightarrow> Some message)"

fun enqueued :: "'w SpotterBuoyClient \<Rightarrow> enqueue list \<Rightarrow> BristlemouthMessage list" where
  "enqueued c [] = []"
| "enqueued c (op # ops) =
     (case enqueue_result c op of None \<Rightarrow> [] | Some message \<Rightarrow> [message])
       @ enqueued (apply_enqueue c op) ops"

section \<open>The digest function and the examples of the test suite\<close>

text \<open>
  MD5 (RFC 1321) as \<^verbatim>\<open>hashlib.md5\<close> computes it, used where an example needs the digest of
  concrete bytes. The theorems about the codec hold for every digest function.
\<close>

definition md5_K :: "32 word list" where
  "md5_K =
     [0xD76AA478, 0xE8C7B756, 0x242070DB, 0xC1BDCEEE, 0xF57C0FAF, 0x4787C62A,
      0xA8304613, 0xFD469501, 0x698098D8, 0x8B44F7AF, 0xFFFF5BB1, 0x895CD7BE,
      0x6B901122, 0xFD987193, 0xA679438E, 0x49B40821, 0xF61E2562, 0xC040B340,
      0x265E5A51, 0xE9B6C7AA, 0xD62F105D, 0x02441453, 0xD8A1E681, 0xE7D3FBC8,
      0x21E1CDE6, 0xC33707D6, 0xF4D50D87, 0x455A14ED, 0xA9E3E905, 0xFCEFA3F8,
      0x676F02D9, 0x8D2A4C8A, 0xFFFA3942, 0x8771F681, 0x6D9D6122, 0xFDE5380C,
      0xA4BEEA44, 0x4BDECFA9, 0xF6BB4B60, 0xBEBFBC70, 0x289B7EC6, 0xEAA127FA,
      0xD4EF3085, 0x04881D05, 0xD9D4D039, 0xE6DB99E5, 0x1FA27CF8, 0xC4AC5665,
      0xF4292244, 0x432AFF97, 0xAB9423A7, 0xFC93A039, 0x655B59C3, 0x8F0CCC92,
      0xFFEFF47D, 0x85845DD1, 0x6FA87E4F, 0xFE2CE6E0, 0xA3014314, 0x4E0811A1,
      0xF7537E82, 0xBD3AF235, 0x2AD7D2BB, 0xEB86D391]"

definition md5_S :: "nat list" where
  "md5_S =
     [7, 12, 17, 22, 7, 12, 17, 22, 7, 12, 17, 22, 7, 12, 17, 22,
      5, 9, 14, 20, 5, 9, 14, 20, 5, 9, 14, 20, 5, 9, 14, 20,
      4, 11, 16, 23, 4, 11, 16, 23, 4, 11, 16, 23, 4, 11, 16, 23,
      6, 10, 15, 21, 6, 10, 15, 21, 6, 10, 15, 21, 6, 10, 15, 21]"

definition md5_pad :: "byte list \<Rightarrow> byte list" where
  "md5_pad m =
     m @ [0x80] @ replicate ((119 - length m mod 64) mod 64) 0
       @ rev (be_bytes 8 (8 * length m mod 2 ^ 64))"

definition md5_F :: "nat \<Rightarrow> 32 word \<Rightarrow> 32 word \<Rightarrow> 32 word \<Rightarrow> 32 word" where
  "md5_F i b c d =
     (if i < 16 then (b AND c) OR (NOT b AND d)
      else if i < 32 then (d AND b) OR (NOT d AND c)
      else if i < 48 then b XOR c XOR d
      else c XOR (b OR NOT d))"

definition md5_g :: "nat \<Rightarrow> nat" where
  "md5_g i =
     (if i < 16 then i
      else if i < 32 then (5 * i + 1) mod 16
      else if i < 48 then (3 * i + 5) mod 16
      else 7 * i mod 16)"

definition rotl32 :: "nat \<Rightarrow> 32 word \<Rightarrow> 32 word" where
  "rotl32 s x = of_nat (unat x * 2 ^ s mod 2 ^ 32 + unat x div 2 ^ (32 - s))"

definition md5_step ::
  "32 word list \<Rightarrow> 32 word \<times> 32 word \<times> 32 word \<times> 32 word \<Rightarrow> nat
     \<Rightarrow> 32 word \<times> 32 word \<times> 32 word \<times> 32 word" where
  "md5_step M st i =
     (case st of (a, b, c, d) \<Rightarrow>
        (d, b + rotl32 (md5_S ! i) (md5_F i b c d + a + md5_K ! i + M ! md5_g i), b, c))"

definition md5_block ::
  "32 word \<times> 32 word \<times> 32 word \<times> 32 word \<Rightarrow> byte list
     \<Rightarrow> 32 word \<times> 32 word \<times> 32 word \<times> 32 word" where
  "md5_block st blk =
     (let M = map (\<lambda>j. of_nat (be_nat (rev (take 4 (drop (4 * j) blk)))))
                [0..<16]
      in case (st, foldl (md5_step M) st [0..<64]) of
           ((a0, b0, c0, d0), (a, b, c, d)) \<Rightarrow> (a0 + a, b0 + b, c0 + c, d0 + d))"

function md5_blocks ::
  "32 word \<times> 32 word \<times> 32 word \<times> 32 word \<Rightarrow> byte list
     \<Rightarrow> 32 word \<times> 32 word \<times> 32 word \<times> 32 word" where
  "md5_blocks st bs =
     (if bs = [] then st else md5_blocks (md5_block st (take 64 bs)) (drop 64 bs))"
  by pat_completeness auto
termination
  by (relation "measure (\<lambda>(st, bs). length bs)") auto

declare md5_blocks.simps [simp del]

definition hashlib_md5 :: "byte list \<Rightarrow> 128 word" where
  "hashlib_md5 m =
     (case md5_blocks (0x67452301, 0xEFCDAB89, 0x98BADCFE, 0x10325476) (md5_pad m) of
        (a, b, c, d) \<Rightarrow>
          of_nat (be_nat (concat (map (\<lambda>x. rev (be_bytes 4 (unat x))) [a, b, c, d]))))"

text \<open>
  The objects the repository's tests build: the topic \<^verbatim>\<open>BristlemouthTopic(name="test")\<close>, a
  message on it with payload \<^verbatim>\<open>b"test"\<close> and the timestamp \<open>1234567890.0\<close> of
  \<^verbatim>\<open>test_message_custom_timestamp\<close>, a client \<^verbatim>\<open>SPOT-1234\<close> with a configured capacity, and
  callbacks that append what they are called with to a list.
\<close>

definition test_topic :: BristlemouthTopic where
  "test_topic = \<lparr>name = pystr_of ''test'', topic_version = 1, node_id = None\<rparr>"

definition test_message :: "int \<Rightarrow> BristlemouthMessage" where
  "test_message n =
     \<lparr>topic = test_topic, payload = [0x74, 0x65, 0x73, 0x74], message_type = SENSOR_DATA,
      version = BCMP_PROTOCOL_VERSION, sequence_number = n, timestamp = 0x41D26580B4800000,
      source_node_id = None\<rparr>"

definition test_client :: "int \<Rightarrow> 'w SpotterBuoyClient" where
  "test_client cap =
     projr (new_client (pystr_of ''SPOT-1234'')
              (Some ((default_config (pystr_of ''SPOT-1234''))\<lparr>max_queue_size := cap\<rparr>)))"

definition test_result :: TransmissionResult where
  "test_result =
     \<lparr>success = True, message_count = 1, bytes_transmitted = 41,
      result_timestamp = 0x41D26580B4800000, error_message = None, result_mode = Some HYBRID\<rparr>"


text \<open>
  The sensor \<^verbatim>\<open>TemperatureSensor()\<close> of the tests, with its default bounds \<open>-5.0\<close> and \<open>50.0\<close>,
  and a reading of \<open>20.0\<close> degrees taken at \<open>1234567890.0\<close>.
\<close>

definition test_sensor :: BaseSensor where
  "test_sensor =
     TemperatureSensor (pystr_of ''temp_sensor_01'') 0xC014000000000000 0x4049000000000000"

definition test_reading :: SensorReading where
  "test_reading =
     \<lparr>reading_value = PyFloat 0x4034000000000000, reading_unit = CELSIUS,
      reading_timestamp = 0x41D26580B4800000, quality = 100,
      reading_sensor_id = Some (pystr_of ''temp_sensor_01''), depth_m = None\<rparr>"


section \<open>Evaluation rules\<close>

lemma be_bytes_numeral [simp]:
  "be_bytes (numeral n) v = of_nat (v div 256 ^ pred_numeral n) # be_bytes (pred_numeral n) v"
  by (simp add: numeral_eq_Suc)

lemma replicate_numeral_Cons [simp]:
  "replicate (numeral n) x = x # replicate (pred_numeral n) x"
  by (simp add: numeral_eq_Suc)




lemma bitlen_0 [simp]: "bitlen 0 = 0"
  by (simp add: bitlen.simps)

lemma bitlen_Suc_0 [simp]: "bitlen (Suc 0) = 1"
  by (simp add: bitlen.simps)

lemma bitlen_Bit0 [simp]: "bitlen (numeral (Num.Bit0 n)) = 1 + bitlen (numeral n)"
  by (subst bitlen.simps) (simp add: numeral_Bit0_div_2 del: One_nat_def)

lemma bitlen_Bit1 [simp]: "bitlen (numeral (Num.Bit1 n)) = 1 + bitlen (numeral n)"
  by (subst bitlen.simps) (simp add: numeral_Bit1_div_2 del: One_nat_def)

lemma bitlen_One [simp]: "bitlen (numeral Num.One) = 1"
  by (simp add: bitlen.simps)

lemmas test_client_simps =
  test_client_def new_client_def default_config_def Let_def

lemmas fl_eval =
  fl_sign_def fl_mant_def fl_expo_def fl_exp_def fl_frac_def fl_is_nan_def fl_is_inf_def
  fl_emin_def fl_inf_def fl_qnan_def fl_round_def rne_def Let_def
  f64_mul_def f64_div_def f64_of_int_def f64_to_int_def f64_to_f32_def f32_to_f64_def f64_val_def
  f64_1000_def f64_minus_1_def millis_of_seconds_def seconds_of_millis_def

lemma millis_of_test_timestamp: "millis_of_seconds 0x41D26580B4800000 = Inr 1234567890000"
  by (simp add: fl_eval cong: let_weak_cong)

lemma pack_f32_minus_1: "pack_f32 f64_minus_1 = Inr [0xBF, 0x80, 0, 0]"
  by (simp add: pack_f32_def fl_eval cong: let_weak_cong)

lemma test_reading_to_bytes:
  "reading_to_bytes test_reading =
     Inr [0x40, 0x34, 0, 0, 0, 0, 0, 0, 0, 0, 1, 0x1F, 0x71, 0xFB, 4, 0x50, 0x64,
          0xBF, 0x80, 0, 0]"
  by (simp add: reading_to_bytes_def test_reading_def millis_of_test_timestamp pack_f64_def
      pack_uint_def pack_f32_minus_1)

lemma wrap_test_reading:
  "wrap_reading test_sensor test_reading =
     Inr (\<lparr>topic = spotter_topic ''spotter/sensor/temperature'',
           payload = [0x40, 0x34, 0, 0, 0, 0, 0, 0, 0, 0, 1, 0x1F, 0x71, 0xFB, 4, 0x50, 0x64,
                      0xBF, 0x80, 0, 0],
           message_type = SENSOR_DATA, version = 1, sequence_number = 1,
           timestamp = 0x41D26580B4800000, source_node_id = None\<rparr>,
          test_sensor\<lparr>sensor_sequence_number := 1\<rparr>)"
  unfolding wrap_reading_def test_reading_to_bytes
  by (simp add: new_message_at_def new_message_def
      MAX_PAYLOAD_SIZE_def BCMP_PROTOCOL_VERSION_def test_sensor_def TemperatureSensor_def
      new_sensor_def test_reading_def)



section \<open>Rounding\<close>

lemma bitlen_pos: "0 < n \<Longrightarrow> bitlen n = Suc (bitlen (n div 2))"
  by (subst bitlen.simps) simp

lemma bitlen_bounds: "0 < n \<Longrightarrow> 2 ^ (bitlen n - 1) \<le> n \<and> n < 2 ^ bitlen n"
proof (induction n rule: less_induct)
  case (less n)
  show ?case
  proof (cases "n div 2 = 0")
    case True
    then have "n = 1" using less.prems by (simp add: div_eq_0_iff) 
    then show ?thesis by (simp add: bitlen_pos)
  next
    case False
    then have p: "0 < n div 2" by simp
    have l: "n div 2 < n" using less.prems by simp
    from less.IH [OF l p]
    have ih: "2 ^ (bitlen (n div 2) - 1) \<le> n div 2" "n div 2 < 2 ^ bitlen (n div 2)" by auto
    have b: "bitlen n = Suc (bitlen (n div 2))" using less.prems by (rule bitlen_pos)
    have b2: "bitlen (n div 2) = Suc (bitlen (n div 2) - 1)"
      using bitlen_pos [OF p] by simp
    have "2 ^ (bitlen n - 1) = 2 * 2 ^ (bitlen (n div 2) - 1)"
      unfolding b by (subst b2) simp
    also have "\<dots> \<le> 2 * (n div 2)" using ih(1) by simp
    also have "\<dots> \<le> n" by simp
    finally have 1: "2 ^ (bitlen n - 1) \<le> n" .
    have "n < 2 * (n div 2) + 2" by presburger
    also have "\<dots> \<le> 2 * 2 ^ bitlen (n div 2)" using ih(2) by simp
    finally have 2: "n < 2 ^ bitlen n" unfolding b by simp
    from 1 2 show ?thesis by simp
  qed
qed

lemma bitlen_le: "n < 2 ^ k \<Longrightarrow> bitlen n \<le> k"
proof (cases "n = 0")
  case True
  then show ?thesis by simp
next
  case False
  assume a: "n < 2 ^ k"
  have "(2::nat) ^ (bitlen n - 1) \<le> n" using bitlen_bounds [of n] False by simp
  from this a have "(2::nat) ^ (bitlen n - 1) < 2 ^ k" by (rule le_less_trans)
  then have "bitlen n - 1 < k" by (simp only: power_strict_increasing_iff rel_simps)
  then show ?thesis by simp
qed

lemma rne_bounds: "N div 2 ^ s \<le> rne N s \<and> rne N s \<le> N div 2 ^ s + 1"
  by (cases "s = 0") (auto simp: rne_def Let_def)

lemma rne_error:
  assumes "0 < s"
  shows "2 * \<bar>int (rne N s * 2 ^ s) - int N\<bar> \<le> 2 ^ s"
proof -
  define q where "q = N div 2 ^ s"
  define r where "r = N mod 2 ^ s"
  define h :: nat where "h = 2 ^ (s - 1)"
  have N: "N = q * 2 ^ s + r" unfolding q_def r_def by (rule div_mult_mod_eq [symmetric])
  have hh: "(2::nat) ^ s = 2 * h" using assms by (simp add: h_def power_eq_if)
  have r: "r < 2 * h" unfolding hh [symmetric] r_def by simp
  have hi: "(2::int) ^ s = 2 * int h" using arg_cong [OF hh, of int] by simp
  show ?thesis
  proof (cases "h < r \<or> (r = h \<and> odd q)")
    case True
    then have "rne N s = q + 1" using assms by (simp add: rne_def Let_def q_def r_def h_def)
    then have "int (rne N s * 2 ^ s) - int N = int (2 * h) - int r"
      by (simp add: N hi algebra_simps)
    then show ?thesis using True r by (auto simp: hi)
  next
    case False
    then have "rne N s = q" using assms by (simp add: rne_def Let_def q_def r_def h_def)
    then have "int (rne N s * 2 ^ s) - int N = - int r" by (simp add: N)
    moreover have "r \<le> h" using False by auto
    ultimately show ?thesis by (simp add: hi)
  qed
qed


lemma fl_fields:
  assumes "mag < (2 ^ eb - 1) * 2 ^ fb"
  shows "fl_exp eb fb ((if sg then 2 ^ (eb + fb) else 0) + mag) = mag div 2 ^ fb"
    and "fl_frac fb ((if sg then 2 ^ (eb + fb) else 0) + mag) = mag mod 2 ^ fb"
    and "fl_sign eb fb ((if sg then 2 ^ (eb + fb) else 0) + mag) = sg"
proof -
  have m1: "mag div 2 ^ fb < 2 ^ eb - 1" using assms by (simp add: less_mult_imp_div_less)
  then have m2: "mag div 2 ^ fb < 2 ^ eb" by simp
  have "mag < 2 ^ eb * 2 ^ fb"
    using assms by (meson diff_le_self le_less_trans linorder_not_le mult_le_mono1)
  then have m3: "mag < 2 ^ (eb + fb)" by (simp add: power_add)
  have d: "(2 ^ (eb + fb) + mag) div 2 ^ fb = 2 ^ eb + mag div 2 ^ fb"
    by (simp add: power_add div_mult_self3 [of "2 ^ fb" "2 ^ eb" mag] mult.commute)
  show "fl_exp eb fb ((if sg then 2 ^ (eb + fb) else 0) + mag) = mag div 2 ^ fb"
    using m2 by (simp add: fl_exp_def d)
  show "fl_frac fb ((if sg then 2 ^ (eb + fb) else 0) + mag) = mag mod 2 ^ fb"
    by (simp add: fl_frac_def power_add)
  show "fl_sign eb fb ((if sg then 2 ^ (eb + fb) else 0) + mag) = sg"
    using m3 by (simp add: fl_sign_def)
qed


lemma div_mod_known:
  fixes d :: nat
  assumes "r < d"
  shows "(k * d + r) div d = k" "(k * d + r) mod d = r"
  using assms by simp_all

lemma fl_decode:
  assumes mag: "mag = t * 2 ^ fb + M" and M: "M \<le> 2 ^ (fb + 1)"
    and sub: "M < 2 ^ fb \<Longrightarrow> t = 0" and noov: "mag < (2 ^ eb - 1) * 2 ^ fb"
  shows "fl_value eb fb ((if sg then 2 ^ (eb + fb) else 0) + mag) =
         (if sg then - 1 else 1) * (real M * 2 powi (int t + fl_emin eb fb))"
proof -
  define b where "b = (if sg then 2 ^ (eb + fb) else 0) + mag"
  have f: "fl_exp eb fb b = mag div 2 ^ fb" "fl_frac fb b = mag mod 2 ^ fb" "fl_sign eb fb b = sg"
    unfolding b_def by (rule fl_fields [OF noov])+
  have v: "real (fl_mant eb fb b) * 2 powi fl_expo eb fb b =
      real M * 2 powi (int t + fl_emin eb fb)"
  proof -
    consider (a) "M < 2 ^ fb" | (b) "2 ^ fb \<le> M" "M < 2 ^ (fb + 1)" | (c) "M = 2 ^ (fb + 1)"
      using M by linarith
    then show ?thesis
    proof cases
      case a
      then have t: "t = 0" by (rule sub)
      have d: "mag div 2 ^ fb = 0" "mag mod 2 ^ fb = M" using a by (simp_all add: mag t)
      have "fl_mant eb fb b = M" "fl_expo eb fb b = fl_emin eb fb"
        unfolding fl_mant_def fl_expo_def f d by simp_all
      then show ?thesis by (simp add: t)
    next
      case b
      define r where "r = M - 2 ^ fb"
      have r: "M = 2 ^ fb + r" "r < 2 ^ fb" using b by (simp_all add: r_def)
      have m: "mag = (t + 1) * 2 ^ fb + r" by (simp add: mag r algebra_simps)
      have d: "mag div 2 ^ fb = t + 1" "mag mod 2 ^ fb = r"
        unfolding m using div_mod_known [OF r(2), of "t + 1"] by blast+
      have "fl_mant eb fb b = M" "fl_expo eb fb b = int t + fl_emin eb fb"
        unfolding fl_mant_def fl_expo_def f d by (simp_all add: r(1))
      then show ?thesis by simp
    next
      case c
      have m: "mag = (t + 2) * 2 ^ fb" by (simp add: mag c algebra_simps)
      have d: "mag div 2 ^ fb = t + 2" "mag mod 2 ^ fb = 0"
        unfolding m using div_mod_known [of 0 "2 ^ fb" "t + 2"] by simp_all
      have e: "fl_mant eb fb b = 2 ^ fb" "fl_expo eb fb b = 1 + (int t + fl_emin eb fb)"
        unfolding fl_mant_def fl_expo_def f d by simp_all
      have "(2::real) powi (1 + (int t + fl_emin eb fb)) = 2 * 2 powi (int t + fl_emin eb fb)"
        by (subst power_int_add) simp_all
      then show ?thesis unfolding e by (simp add: c)
    qed
  qed
  show ?thesis unfolding fl_value_def b_def [symmetric] v f by simp
qed


lemma rounded_significand:
  fixes N :: nat and sh :: int
  assumes N: "0 < N" and sh: "int (bitlen N) - int (fb + 1) \<le> sh"
  defines "M \<equiv> (if sh \<le> 0 then N * 2 ^ nat (- sh) else rne N (nat sh))"
  shows "M \<le> 2 ^ (fb + 1)"
    and "sh = int (bitlen N) - int (fb + 1) \<Longrightarrow> 2 ^ fb \<le> M"
proof -
  note b = bitlen_bounds [OF N]
  have L: "0 < bitlen N" using bitlen_pos [OF N] by simp
  show "M \<le> 2 ^ (fb + 1)"
  proof (cases "sh \<le> 0")
    case True
    then have e: "bitlen N + nat (- sh) \<le> fb + 1" using sh by linarith
    have "N * 2 ^ nat (- sh) < 2 ^ bitlen N * 2 ^ nat (- sh)" using b by simp
    also have "\<dots> = 2 ^ (bitlen N + nat (- sh))" by (simp add: power_add)
    also have "\<dots> \<le> 2 ^ (fb + 1)" using e by (simp only: power_increasing_iff rel_simps)
    finally show ?thesis using True by (simp add: M_def)
  next
    case False
    then have e: "bitlen N \<le> (fb + 1) + nat sh" using sh by linarith
    have "N < 2 ^ bitlen N" using b by simp
    also have "\<dots> \<le> 2 ^ ((fb + 1) + nat sh)"
      using e by (simp only: power_increasing_iff rel_simps)
    finally have "N < 2 ^ (fb + 1) * 2 ^ nat sh" by (simp add: power_add)
    then have "N div 2 ^ nat sh < 2 ^ (fb + 1)" by (simp add: less_mult_imp_div_less)
    then have "N div 2 ^ nat sh + 1 \<le> 2 ^ (fb + 1)" by simp
    then show ?thesis using False rne_bounds [of N "nat sh"] by (simp add: M_def)
  qed
  show "2 ^ fb \<le> M" if eq: "sh = int (bitlen N) - int (fb + 1)"
  proof (cases "sh \<le> 0")
    case True
    then have e: "fb = (bitlen N - 1) + nat (- sh)" using eq L by linarith
    have "(2::nat) ^ fb = 2 ^ (bitlen N - 1) * 2 ^ nat (- sh)"
      by (subst e) (simp add: power_add)
    also have "\<dots> \<le> N * 2 ^ nat (- sh)" using b by simp
    finally show ?thesis using True by (simp add: M_def)
  next
    case False
    then have e: "bitlen N - 1 = fb + nat sh" using eq L by linarith
    have "(2::nat) ^ fb * 2 ^ nat sh = 2 ^ (bitlen N - 1)"
      unfolding e by (simp only: power_add)
    also have "\<dots> \<le> N" using b by simp
    finally have "2 ^ fb * 2 ^ nat sh \<le> N" .
    then have "2 ^ fb \<le> N div 2 ^ nat sh" by (simp add: less_eq_div_iff_mult_less_eq)
    then show ?thesis using False rne_bounds [of N "nat sh"] by (simp add: M_def)
  qed
qed


lemma fl_round_value:
  fixes N eb fb :: nat and E :: int
  defines "sh \<equiv> max (int (bitlen N) - int (fb + 1)) (fl_emin eb fb - E)"
  defines "M \<equiv> (if sh \<le> 0 then N * 2 ^ nat (- sh) else rne N (nat sh))"
  assumes N: "0 < N"
    and noov: "nat (E + sh - fl_emin eb fb) * 2 ^ fb + M < (2 ^ eb - 1) * 2 ^ fb"
  shows "fl_value eb fb (fl_round eb fb sg N E) =
         (if sg then - 1 else 1) * (real M * 2 powi (E + sh))"
    and "fl_sign eb fb (fl_round eb fb sg N E) = sg"
    and "fl_exp eb fb (fl_round eb fb sg N E) < 2 ^ eb - 1"
proof -
  define t where "t = nat (E + sh - fl_emin eb fb)"
  define mag where "mag = t * 2 ^ fb + M"
  have r: "fl_round eb fb sg N E = (if sg then 2 ^ (eb + fb) else 0) + mag"
    unfolding fl_round_def Let_def mag_def t_def M_def sh_def
    using N noov [unfolded M_def sh_def] by (simp add: min_def)
  have no: "mag < (2 ^ eb - 1) * 2 ^ fb" using noov by (simp add: mag_def t_def)
  have s1: "int (bitlen N) - int (fb + 1) \<le> sh" and s2: "fl_emin eb fb - E \<le> sh"
    by (simp_all add: sh_def)
  have Mb: "M \<le> 2 ^ (fb + 1)" unfolding M_def by (rule rounded_significand(1) [OF N s1])
  have sub: "t = 0" if "M < 2 ^ fb"
  proof (rule ccontr)
    assume "t \<noteq> 0"
    then have "fl_emin eb fb - E < sh" by (simp add: t_def)
    then have "sh = int (bitlen N) - int (fb + 1)" by (simp add: sh_def max_def split: if_splits)
    from rounded_significand(2) [OF N s1 this] that show False by (simp add: M_def)
  qed
  have te: "int t + fl_emin eb fb = E + sh" using s2 by (simp add: t_def)
  show "fl_value eb fb (fl_round eb fb sg N E) =
         (if sg then - 1 else 1) * (real M * 2 powi (E + sh))"
    unfolding r using fl_decode [OF mag_def Mb sub no, of sg] by (simp add: te)
  show "fl_sign eb fb (fl_round eb fb sg N E) = sg" unfolding r by (rule fl_fields(3) [OF no])
  show "fl_exp eb fb (fl_round eb fb sg N E) < 2 ^ eb - 1"
    unfolding r fl_fields(1) [OF no] using no by (simp add: less_mult_imp_div_less)
qed

lemma fl_round_zero:
  "fl_round eb fb sg 0 E = (if sg then 2 ^ (eb + fb) else 0)"
  "fl_value eb fb (fl_round eb fb sg 0 E) = 0"
  by (simp_all add: fl_round_def Let_def fl_value_def fl_mant_def fl_exp_def fl_frac_def
      power_add)


lemma fl_finite: "fl_exp eb fb b < 2 ^ eb - 1 \<Longrightarrow> \<not> fl_is_nan eb fb b \<and> \<not> fl_is_inf eb fb b"
  by (simp add: fl_is_nan_def fl_is_inf_def)

lemma f64_val_finite:
  "\<not> fl_is_nan 11 52 (unat x) \<Longrightarrow> \<not> fl_is_inf 11 52 (unat x) \<Longrightarrow>
   f64_val x = Fin (fl_value 11 52 (unat x))"
  by (simp add: f64_val_def fl_value_def Let_def power_int_def field_simps)

lemma f64_val_cases:
  "f64_val x = NaN \<longleftrightarrow> fl_is_nan 11 52 (unat x)"
  "f64_val x = Fin v \<longleftrightarrow>
     \<not> fl_is_nan 11 52 (unat x) \<and> \<not> fl_is_inf 11 52 (unat x) \<and> v = fl_value 11 52 (unat x)"
  using f64_val_finite [of x]
  by (auto simp: f64_val_def Let_def)

lemma seconds_of_millis_total:
  assumes "0 \<le> ms" "ms < 2 ^ 64"
  shows "\<exists>ts. seconds_of_millis ms = Inr ts"
proof -
  have f: "\<not> fl_is_inf 11 52 (fl_round 11 52 False (nat ms) 0)"
  proof (cases "nat ms = 0")
    case True
    then show ?thesis
      by (simp add: fl_round_zero fl_is_inf_def fl_exp_def)
  next
    case False
    define N where "N = nat ms"
    have N: "0 < N" "N < 2 ^ 64" using False assms by (simp_all add: N_def nat_less_iff)
    have bl: "bitlen N \<le> 64" using N(2) by (rule bitlen_le)
    define sh where "sh = max (int (bitlen N) - int (52 + 1)) (fl_emin 11 52 - 0)"
    define M where "M = (if sh \<le> 0 then N * 2 ^ nat (- sh) else rne N (nat sh))"
    have s1: "int (bitlen N) - int (52 + 1) \<le> sh" by (simp add: sh_def)
    have Mb: "M \<le> 2 ^ (52 + 1)" unfolding M_def by (rule rounded_significand(1) [OF N(1) s1])
    have shb: "sh \<le> 11" using bl by (simp add: sh_def fl_emin_def)
    have "nat (0 + sh - fl_emin 11 52) \<le> 1085" using shb by (simp add: fl_emin_def)
    then have "nat (0 + sh - fl_emin 11 52) * 2 ^ 52 + M \<le> 1085 * 2 ^ 52 + 2 ^ 53"
      using Mb by (intro add_mono mult_right_mono) simp_all
    also have "\<dots> < (2 ^ 11 - 1) * 2 ^ 52" by simp
    finally have "nat (0 + sh - fl_emin 11 52) * 2 ^ 52 + M < (2 ^ 11 - 1) * 2 ^ 52" .
    from fl_round_value(3) [OF N(1) this [unfolded M_def sh_def], of False]
    show ?thesis unfolding N_def by (simp add: fl_is_inf_def)
  qed
  have d: "\<exists>ts. f64_div x f64_1000 = Inr ts" for x
    by (simp add: f64_div_def Let_def f64_1000_def fl_is_nan_def fl_is_inf_def fl_mant_def
        fl_exp_def fl_frac_def)
  show ?thesis using f d assms by (simp add: seconds_of_millis_def f64_of_int_def Let_def)
qed


lemma pow2_cancel: "s \<le> 0 \<Longrightarrow> (2::real) ^ nat (- s) * 2 powi s = 1"
proof -
  assume s: "s \<le> 0"
  have "(2::real) ^ n * (1 / 2) ^ n = 1" for n :: nat
    by (simp add: power_mult_distrib [symmetric])
  then show ?thesis using s by (cases "s = 0") (simp_all add: power_int_def)
qed

lemma pow2_split: "0 \<le> s \<Longrightarrow> (2::real) powi s = 2 ^ nat s"
  by (simp add: power_int_def)

lemma fl_round_less: "fl_round eb fb sg N E < 2 ^ (eb + fb + 1)"
proof -
  define c :: nat where "c = (2 ^ eb - 1) * 2 ^ fb"
  define P :: nat where "P = 2 ^ (eb + fb)"
  have "c < 2 ^ eb * 2 ^ fb" unfolding c_def by simp
  then have c: "c < P" by (simp add: P_def power_add)
  have m: "min m c < P" for m using c by (simp add: min_def)
  have "(if sg then P else 0) + min m c < 2 * P" for m using m [of m] by simp
  then show ?thesis
    unfolding fl_round_def Let_def c_def [symmetric] P_def [symmetric]
    by (simp add: P_def)
qed

lemma fl_mant_expo_32:
  assumes "fl_exp 8 23 a < 255"
  shows "fl_mant 8 23 a < 2 ^ 24" "- 149 \<le> fl_expo 8 23 a" "fl_expo 8 23 a \<le> 104"
proof -
  have "fl_frac 23 a < 2 ^ 23" by (simp add: fl_frac_def)
  then show "fl_mant 8 23 a < 2 ^ 24" by (simp add: fl_mant_def)
  show "- 149 \<le> fl_expo 8 23 a" by (simp add: fl_expo_def fl_emin_def)
  show "fl_expo 8 23 a \<le> 104" using assms by (simp add: fl_expo_def fl_emin_def)
qed

lemma widen_exact:
  fixes y :: f32
  assumes fin: "fl_exp 8 23 (unat y) < 255"
  shows "f64_val (f32_to_f64 y) = Fin (fl_value 8 23 (unat y))"
proof -
  define a where "a = unat y"
  define N where "N = fl_mant 8 23 a"
  define E where "E = fl_expo 8 23 a"
  define sg where "sg = fl_sign 8 23 a"
  define r where "r = fl_round 11 52 sg N E"
  have nf: "\<not> fl_is_nan 8 23 a" "\<not> fl_is_inf 8 23 a"
    using fin fl_finite [of 8 23 a] by (simp_all add: a_def)
  have w: "f32_to_f64 y = of_nat r"
    using nf by (simp add: f32_to_f64_def Let_def a_def [symmetric] r_def N_def E_def sg_def)
  have rl: "r < 2 ^ 64" using fl_round_less [of 11 52 sg N E] by (simp add: r_def)
  then have u: "unat (of_nat r :: 64 word) = r" by (simp add: unat_of_nat)
  note b = fl_mant_expo_32 [OF fin, folded a_def, folded N_def E_def]
  have v32: "fl_value 8 23 a = (if sg then - 1 else 1) * (real N * 2 powi E)"
    by (simp add: fl_value_def sg_def N_def E_def)
  show ?thesis
  proof (cases "N = 0")
    case True
    have "fl_exp 11 52 r < 2 ^ 11 - 1" "fl_value 11 52 r = 0"
      unfolding r_def True fl_round_zero
      by (simp_all add: fl_exp_def fl_value_def fl_mant_def fl_frac_def)
    then show ?thesis
      using fl_finite [of 11 52 r] f64_val_finite [of "of_nat r"]
      by (simp add: w u v32 True a_def [symmetric])
  next
    case False
    then have N: "0 < N" by simp
    define sh where "sh = max (int (bitlen N) - int (52 + 1)) (fl_emin 11 52 - E)"
    define M where "M = (if sh \<le> 0 then N * 2 ^ nat (- sh) else rne N (nat sh))"
    have bl: "bitlen N \<le> 24" using b(1) by (rule bitlen_le)
    have sh0: "sh \<le> 0" using bl b(2) by (simp add: sh_def fl_emin_def)
    have shl: "- 1074 - E \<le> sh" by (simp add: sh_def fl_emin_def)
    have s1: "int (bitlen N) - int (52 + 1) \<le> sh" by (simp add: sh_def)
    have Mb: "M \<le> 2 ^ (52 + 1)" unfolding M_def by (rule rounded_significand(1) [OF N s1])
    have "nat (E + sh - fl_emin 11 52) \<le> 1178" using sh0 b(3) by (simp add: fl_emin_def)
    then have "nat (E + sh - fl_emin 11 52) * 2 ^ 52 + M \<le> 1178 * 2 ^ 52 + 2 ^ 53"
      using Mb by (intro add_mono mult_right_mono) simp_all
    also have "\<dots> < (2 ^ 11 - 1) * 2 ^ 52" by simp
    finally have noov: "nat (E + sh - fl_emin 11 52) * 2 ^ 52 + M < (2 ^ 11 - 1) * 2 ^ 52" .
    note rv = fl_round_value [OF N noov [unfolded M_def sh_def], of sg,
        folded sh_def, folded M_def r_def]
    have "real M * 2 powi (E + sh) = real N * 2 powi E"
    proof -
      have "real M = real N * 2 ^ nat (- sh)" using sh0 by (simp add: M_def)
      moreover have "(2::real) powi (E + sh) = 2 powi E * 2 powi sh"
        by (rule power_int_add) simp
      moreover have "(2::real) ^ nat (- sh) * 2 powi sh = 1"
        using sh0 by (rule pow2_cancel)
      ultimately show ?thesis by (simp add: mult.assoc mult.left_commute)
    qed
    then have "fl_value 11 52 r = fl_value 8 23 a" using rv(1) by (simp add: v32)
    then show ?thesis
      using fl_finite [OF rv(3)] f64_val_finite [of "of_nat r"]
      by (simp add: w u a_def [symmetric])
  qed
qed


lemma pow2_less_imp: "(2::real) powi a < 2 powi b \<Longrightarrow> a < b"
  using power_int_increasing [of b a "2::real"] by (cases "a < b") auto

lemma narrow_error:
  fixes x :: f64 and y :: f32
  assumes fin: "\<not> fl_is_nan 11 52 (unat x)" "\<not> fl_is_inf 11 52 (unat x)"
    and y: "f64_to_f32 x = Inr y"
  shows "fl_exp 8 23 (unat y) < 255"
    and "2 powi (- 126) \<le> \<bar>fl_value 11 52 (unat x)\<bar> \<Longrightarrow>
         \<bar>fl_value 8 23 (unat y) - fl_value 11 52 (unat x)\<bar>
           \<le> \<bar>fl_value 11 52 (unat x)\<bar> / 2 ^ 24"
    and "fl_value 11 52 (unat x) = 0 \<Longrightarrow> fl_value 8 23 (unat y) = 0"
    and "0 \<le> fl_value 11 52 (unat x) \<Longrightarrow> 0 \<le> fl_value 8 23 (unat y)"
proof -
  define a where "a = unat x"
  define m where "m = fl_mant 11 52 a"
  define e where "e = fl_expo 11 52 a"
  define sg where "sg = fl_sign 11 52 a"
  define r where "r = fl_round 8 23 sg m e"
  define \<sigma> :: real where "\<sigma> = (if sg then - 1 else 1)"
  have ni: "\<not> fl_is_inf 8 23 r" and yr: "y = of_nat r"
    using y fin
    by (simp_all add: f64_to_f32_def Let_def a_def [symmetric] r_def m_def e_def sg_def
        split: if_splits)
  have "r < 2 ^ 32" using fl_round_less [of 8 23 sg m e] by (simp add: r_def)
  then have u: "unat y = r" by (simp add: yr unat_of_nat)
  have v: "fl_value 11 52 a = \<sigma> * (real m * 2 powi e)"
    by (simp add: fl_value_def \<sigma>_def sg_def m_def e_def)
  have sa: "\<bar>\<sigma>\<bar> = 1" by (simp add: \<sigma>_def)
  have goal: "fl_exp 8 23 r < 255 \<and>
     (2 powi (- 126) \<le> \<bar>fl_value 11 52 a\<bar> \<longrightarrow>
        \<bar>fl_value 8 23 r - fl_value 11 52 a\<bar> \<le> \<bar>fl_value 11 52 a\<bar> / 2 ^ 24) \<and>
     (fl_value 11 52 a = 0 \<longrightarrow> fl_value 8 23 r = 0) \<and>
     (0 \<le> fl_value 11 52 a \<longrightarrow> 0 \<le> fl_value 8 23 r)"
  proof (cases "m = 0")
    case True
    have "fl_exp 8 23 r < 255" "fl_value 8 23 r = 0"
      unfolding r_def True fl_round_zero
      by (simp_all add: fl_exp_def fl_value_def fl_mant_def fl_frac_def)
    then show ?thesis by (simp add: v True)
  next
    case False
    then have m: "0 < m" by simp
    define sh where "sh = max (int (bitlen m) - int (23 + 1)) (fl_emin 8 23 - e)"
    define M where "M = (if sh \<le> 0 then m * 2 ^ nat (- sh) else rne m (nat sh))"
    define mag where "mag = nat (e + sh - fl_emin 8 23) * 2 ^ 23 + M"
    have rr: "r = (if sg then 2 ^ (8 + 23) else 0) + min mag ((2 ^ 8 - 1) * 2 ^ 23)"
      unfolding r_def fl_round_def Let_def mag_def M_def sh_def using m by simp
    have noov: "mag < (2 ^ 8 - 1) * 2 ^ 23"
    proof (rule ccontr)
      assume "\<not> mag < (2 ^ 8 - 1) * 2 ^ 23"
      then have "r = (if sg then 2 ^ (8 + 23) else 0) + (2 ^ 8 - 1) * 2 ^ 23"
        by (simp add: rr min_def)
      then have "fl_is_inf 8 23 r"
        by (simp add: fl_is_inf_def fl_exp_def fl_frac_def)
      with ni show False by simp
    qed
    note rv = fl_round_value [OF m noov [unfolded mag_def M_def sh_def], of sg,
        folded sh_def, folded M_def r_def]
    have v': "fl_value 8 23 r = \<sigma> * (real M * 2 powi (e + sh))"
      using rv(1) by (simp add: \<sigma>_def)
    have split: "(2::real) powi (e + sh) = 2 powi e * 2 powi sh" by (rule power_int_add) simp
    have diff: "\<bar>fl_value 8 23 r - fl_value 11 52 a\<bar> =
        2 powi e * \<bar>real M * 2 powi sh - real m\<bar>"
    proof -
      have "fl_value 8 23 r - fl_value 11 52 a =
          \<sigma> * (2 powi e * (real M * 2 powi sh - real m))"
        by (simp add: v v' split algebra_simps)
      then show ?thesis by (simp add: abs_mult sa)
    qed
    have av: "\<bar>fl_value 11 52 a\<bar> = real m * 2 powi e" by (simp add: v abs_mult sa)
    have bound: "\<bar>fl_value 8 23 r - fl_value 11 52 a\<bar> \<le> \<bar>fl_value 11 52 a\<bar> / 2 ^ 24"
      if big: "2 powi (- 126) \<le> \<bar>fl_value 11 52 a\<bar>"
    proof (cases "sh \<le> 0")
      case True
      have "real M * 2 powi sh = real m"
        using True pow2_cancel [OF True] by (simp add: M_def mult.assoc)
      then show ?thesis by (simp add: diff av)
    next
      case pos: False
      then have Mr: "M = rne m (nat sh)" by (simp add: M_def)
      have p: "(2::real) powi sh = 2 ^ nat sh" using pos by (simp add: pow2_split)
      have "real m < 2 ^ bitlen m"
        using bitlen_bounds [OF m] by (metis of_nat_less_iff of_nat_numeral of_nat_power)
      then have "real m * 2 powi e < 2 ^ bitlen m * 2 powi e" by simp
      also have "\<dots> = 2 powi (int (bitlen m) + e)" by (subst power_int_add) simp_all
      finally have "(2::real) powi (- 126) < 2 powi (int (bitlen m) + e)"
        using big by (simp add: av)
      then have "- 126 < int (bitlen m) + e" by (rule pow2_less_imp)
      then have she: "sh = int (bitlen m) - 24" by (simp add: sh_def fl_emin_def)
      then have bl: "bitlen m - 1 = nat sh + 23" using pos by linarith
      have "(2::nat) ^ nat sh * 2 ^ 23 = 2 ^ (bitlen m - 1)" unfolding bl by (simp only: power_add)
      also have "\<dots> \<le> m" using bitlen_bounds [OF m] by simp
      finally have "real ((2::nat) ^ nat sh * 2 ^ 23) \<le> real m" by (simp only: of_nat_le_iff)
      then have big_m: "(2::real) ^ nat sh * 2 ^ 23 \<le> real m" by simp
      have "2 * \<bar>int (M * 2 ^ nat sh) - int m\<bar> \<le> 2 ^ nat sh"
        unfolding Mr using pos by (intro rne_error) simp
      then have "real_of_int (2 * \<bar>int (M * 2 ^ nat sh) - int m\<bar>) \<le> real_of_int (2 ^ nat sh)"
        by (simp only: of_int_le_iff)
      then have "2 * \<bar>real M * 2 ^ nat sh - real m\<bar> \<le> 2 ^ nat sh" by simp
      then have "\<bar>real M * 2 powi sh - real m\<bar> \<le> real m / 2 ^ 24"
        using big_m by (simp add: p)
      then have "2 powi e * \<bar>real M * 2 powi sh - real m\<bar> \<le> 2 powi e * (real m / 2 ^ 24)"
        by (intro mult_left_mono) simp_all
      then show ?thesis by (simp add: diff av)
    qed
    have nn: "0 \<le> fl_value 8 23 r" if "0 \<le> fl_value 11 52 a"
    proof -
      have "0 < real m * 2 powi e" using m by simp
      then have "\<sigma> = 1" using that unfolding v \<sigma>_def by (auto split: if_splits)
      then show ?thesis by (simp add: v')
    qed
    have z: "fl_value 11 52 a \<noteq> 0" using m by (simp add: v \<sigma>_def)
    show ?thesis using rv(3) bound nn z by simp
  qed
  show "fl_exp 8 23 (unat y) < 255"
    and "2 powi (- 126) \<le> \<bar>fl_value 11 52 (unat x)\<bar> \<Longrightarrow>
         \<bar>fl_value 8 23 (unat y) - fl_value 11 52 (unat x)\<bar>
           \<le> \<bar>fl_value 11 52 (unat x)\<bar> / 2 ^ 24"
    and "fl_value 11 52 (unat x) = 0 \<Longrightarrow> fl_value 8 23 (unat y) = 0"
    and "0 \<le> fl_value 11 52 (unat x) \<Longrightarrow> 0 \<le> fl_value 8 23 (unat y)"
    using goal by (simp_all add: u a_def)
qed


section \<open>The transmission history\<close>

lemma drop_last_nonempty: "xs \<noteq> [] \<Longrightarrow> 0 < l \<Longrightarrow> drop (length xs - nat l) xs \<noteq> []"
  by (cases xs) auto

lemma history_empty_iff:
  "transmission_history c \<noteq> [] \<Longrightarrow>
   get_transmission_history c limit = [] \<longleftrightarrow>
     (\<exists>l. limit = Some l \<and> l \<le> - int (length (transmission_history c)))"
proof (cases limit)
  case None
  assume "transmission_history c \<noteq> []"
  then show ?thesis using None by (simp add: get_transmission_history_def)
next
  case (Some l)
  assume ne: "transmission_history c \<noteq> []"
  consider "l = 0" | "0 < l" | "l < 0" by linarith
  then show ?thesis
  proof cases
    case 1
    then show ?thesis using ne Some by (simp add: get_transmission_history_def)
  next
    case 2
    then show ?thesis
      using ne Some drop_last_nonempty [of "transmission_history c" l]
      by (simp add: get_transmission_history_def del: drop_eq_Nil drop_eq_Nil2)
  next
    case 3
    then show ?thesis using Some by (auto simp: get_transmission_history_def)
  qed
qed

text \<open>
  C10, as the code has it. A limit of \<open>0\<close> returns the whole history, exactly as an absent
  limit does. For a client whose history is not empty the result is empty for one kind of
  limit only: a negative limit \<open>-k\<close> with \<open>k\<close> at least the length of the history
  (\<^verbatim>\<open>history[k:]\<close>). So no limit that is absent, zero or positive yields an empty slice.
\<close>

theorem history_limit_zero_is_no_limit:
  "get_transmission_history c (Some 0) = transmission_history c \<and>
   get_transmission_history c (Some 0) = get_transmission_history c None \<and>
   (transmission_history c \<noteq> [] \<longrightarrow>
      (get_transmission_history c limit = [] \<longleftrightarrow>
         (\<exists>l. limit = Some l \<and> l \<le> - int (length (transmission_history c)))))"
  using history_empty_iff [of c limit] by (simp add: get_transmission_history_def)

theorem history_limit_zero_is_no_limit_witness:
  "get_transmission_history
     ((test_client 5 :: unit SpotterBuoyClient)\<lparr>transmission_history := [test_result]\<rparr>)
     (Some 0) = [test_result] \<and>
   get_transmission_history
     ((test_client 5 :: unit SpotterBuoyClient)\<lparr>transmission_history := [test_result]\<rparr>)
     None = [test_result] \<and>
   get_transmission_history
     ((test_client 5 :: unit SpotterBuoyClient)\<lparr>transmission_history := [test_result]\<rparr>)
     (Some 3) \<noteq> []"
  using history_limit_zero_is_no_limit
    [of "(test_client 5 :: unit SpotterBuoyClient)\<lparr>transmission_history := [test_result]\<rparr>"
        "Some 3"]
  by (simp add: test_client_simps get_transmission_history_def)

text \<open>
  The claim as stated fails: with one transmission in the history, the limit \<open>-1\<close> asks for
  \<^verbatim>\<open>history[1:]\<close>, which is empty.
\<close>

theorem history_negative_limit_counterexample:
  "transmission_history
     ((test_client 5 :: unit SpotterBuoyClient)\<lparr>transmission_history := [test_result]\<rparr>)
     \<noteq> [] \<and>
   get_transmission_history
     ((test_client 5 :: unit SpotterBuoyClient)\<lparr>transmission_history := [test_result]\<rparr>)
     (Some (- 1)) = []"
  by (simp add: test_client_simps get_transmission_history_def)

section \<open>Callbacks\<close>



section \<open>The connection state\<close>



lemma state_queue_reading:
  "queue_reading c sensor reading = Inr (msg, c', sensor') \<Longrightarrow> state c' = state c"
  by (auto simp: queue_reading_def split: sum.splits prod.splits)







section \<open>The bounded queue\<close>

lemma deque_append_length: "length q \<le> n \<Longrightarrow> length (deque_append n q x) \<le> n"
  by (auto simp: deque_append_def Let_def)

lemma deque_append_full:
  "0 < n \<Longrightarrow> length q = n \<Longrightarrow> deque_append n q x = tl q @ [x]"
  by (cases q) (auto simp: deque_append_def Let_def)

lemma deque_append_room: "length q < n \<Longrightarrow> deque_append n q x = q @ [x]"
  by (simp add: deque_append_def Let_def)

lemma deque_append_drop:
  "length q \<le> n \<Longrightarrow> deque_append n q x = drop (Suc (length q) - n) (q @ [x])"
proof (cases "length q < n")
  case True
  then show ?thesis by (simp add: deque_append_def Let_def)
next
  case False
  assume "length q \<le> n"
  with False have eq: "length q = n" by simp
  have "drop (Suc 0) (q @ [x]) = tl (q @ [x])" by (simp only: drop_Suc drop_0)
  moreover have "Suc (length q) - n = Suc 0" using eq by simp
  ultimately show ?thesis using eq by (simp add: deque_append_def Let_def del: drop_append)
qed

lemma drop_tl_shift:
  assumes "length q = n"
  shows "drop (length (tl (q @ [m]) @ ms) - n) (tl (q @ [m]) @ ms) =
         drop (length (q @ m # ms) - n) (q @ m # ms)"
proof -
  have A: "tl (q @ [m]) @ ms = tl (q @ m # ms)" by (cases q) simp_all
  have L1: "length (tl (q @ m # ms)) - n = length ms" using assms by simp
  have L2: "length (q @ m # ms) - n = Suc (length ms)" using assms by simp
  show ?thesis unfolding A L1 L2 by (simp only: drop_Suc)
qed

lemma queue_maxlen_apply_enqueue: "queue_maxlen (apply_enqueue c op) = queue_maxlen c"
  by (cases op) (auto simp: queue_reading_def queue_message_def queue_raw_data_def Let_def
      split: sum.splits prod.splits)

lemma config_apply_enqueue: "config (apply_enqueue c op) = config c"
  by (cases op) (auto simp: queue_reading_def queue_message_def queue_raw_data_def Let_def
      split: sum.splits prod.splits)

lemma length_apply_enqueue:
  "length (message_queue c) \<le> queue_maxlen c \<Longrightarrow>
   length (message_queue (apply_enqueue c op)) \<le> queue_maxlen c"
  by (cases op) (auto simp: queue_reading_def queue_message_def queue_raw_data_def Let_def
      deque_append_length split: sum.splits prod.splits)

lemma foldl_apply_enqueue:
  "length (message_queue c) \<le> queue_maxlen c \<Longrightarrow>
   length (message_queue (foldl apply_enqueue c ops)) \<le> queue_maxlen c \<and>
   queue_maxlen (foldl apply_enqueue c ops) = queue_maxlen c \<and>
   config (foldl apply_enqueue c ops) = config c"
proof (induction ops arbitrary: c)
  case Nil
  then show ?case by simp
next
  case (Cons op ops)
  have "length (message_queue (apply_enqueue c op)) \<le> queue_maxlen (apply_enqueue c op)"
    using length_apply_enqueue [OF Cons.prems] by (simp add: queue_maxlen_apply_enqueue)
  from Cons.IH [OF this] show ?case
    by (simp add: queue_maxlen_apply_enqueue config_apply_enqueue)
qed

lemma new_client_queue:
  "new_client did cfg = Inr c \<Longrightarrow>
   message_queue c = [] \<and> int (queue_maxlen c) = max_queue_size (config c)"
  by (auto simp: new_client_def Let_def split: if_splits)

lemma foldl_queue_message:
  "length (message_queue c) \<le> queue_maxlen c \<Longrightarrow>
   message_queue (foldl queue_message c ms) =
     drop (length (message_queue c @ ms) - queue_maxlen c) (message_queue c @ ms) \<and>
   queue_maxlen (foldl queue_message c ms) = queue_maxlen c"
proof (induction ms arbitrary: c)
  case Nil
  then show ?case by simp
next
  case (Cons m ms)
  let ?c = "queue_message c m"
  have q: "message_queue ?c = drop (Suc (length (message_queue c)) - queue_maxlen c)
             (message_queue c @ [m])"
    using Cons.prems by (simp add: queue_message_def deque_append_drop)
  have n: "queue_maxlen ?c = queue_maxlen c" by (simp add: queue_message_def)
  have len: "length (message_queue ?c) \<le> queue_maxlen ?c"
    using Cons.prems by (simp add: queue_message_def deque_append_length)
  have "drop (length (message_queue ?c @ ms) - queue_maxlen c) (message_queue ?c @ ms) =
        drop (length (message_queue c @ m # ms) - queue_maxlen c) (message_queue c @ m # ms)"
  proof (cases "length (message_queue c) < queue_maxlen c")
    case True
    then show ?thesis by (simp add: q)
  next
    case False
    then have eq: "length (message_queue c) = queue_maxlen c" using Cons.prems by simp
    have "message_queue ?c = tl (message_queue c @ [m])"
      using eq by (simp add: queue_message_def deque_append_def Let_def)
    then show ?thesis using drop_tl_shift [OF eq, of m ms] by simp
  qed
  then show ?case using Cons.IH [OF len] by (simp add: n)
qed

lemma apply_enqueue_queue:
  "message_queue (apply_enqueue c op) =
     (case enqueue_result c op of
        None \<Rightarrow> message_queue c
      | Some message \<Rightarrow> deque_append (queue_maxlen c) (message_queue c) message)"
  by (cases op)
     (auto simp: queue_reading_def queue_message_def queue_raw_data_def Let_def
        split: sum.splits prod.splits)

lemma drop_deque_append:
  assumes "length q \<le> n"
  shows "drop (length (deque_append n q m @ ms) - n) (deque_append n q m @ ms) =
         drop (length (q @ m # ms) - n) (q @ m # ms)"
proof (cases "length q < n")
  case True
  then show ?thesis by (simp add: deque_append_room)
next
  case False
  then have eq: "length q = n" using assms by simp
  have "deque_append n q m = tl (q @ [m])" using eq by (simp add: deque_append_def Let_def)
  then show ?thesis using drop_tl_shift [OF eq, of m ms] by simp
qed

lemma foldl_apply_enqueue_queue:
  "length (message_queue c) \<le> queue_maxlen c \<Longrightarrow>
   message_queue (foldl apply_enqueue c ops) =
     drop (length (message_queue c @ enqueued c ops) - queue_maxlen c)
       (message_queue c @ enqueued c ops)"
proof (induction ops arbitrary: c)
  case Nil
  then show ?case by simp
next
  case (Cons op ops)
  let ?c = "apply_enqueue c op"
  have n: "queue_maxlen ?c = queue_maxlen c" by (rule queue_maxlen_apply_enqueue)
  have len: "length (message_queue ?c) \<le> queue_maxlen ?c"
    using length_apply_enqueue [OF Cons.prems] by (simp add: n)
  show ?case
  proof (cases "enqueue_result c op")
    case None
    then show ?thesis using Cons.IH [OF len] by (simp add: n apply_enqueue_queue)
  next
    case (Some m)
    then have q: "message_queue ?c = deque_append (queue_maxlen c) (message_queue c) m"
      by (simp add: apply_enqueue_queue)
    show ?thesis
      using Cons.IH [OF len] drop_deque_append [OF Cons.prems, of m "enqueued ?c ops"]
      by (simp add: n q Some)
  qed
qed


text \<open>
  C2, as the code has it. After any sequence of enqueue calls (\<^verbatim>\<open>queue_reading\<close>,
  \<^verbatim>\<open>queue_message\<close>, \<^verbatim>\<open>queue_raw_data\<close>, raising or not) the queue is no longer than the
  bound of the deque, which for a new client is the configured \<^verbatim>\<open>max_queue_size\<close>. A call
  raises exactly when building its message raises (\<^verbatim>\<open>queue_message\<close> never), and then leaves
  the queue as it was; the fill of the queue raises nothing. Each of the three calls appends
  its message when there is room; on a full queue of capacity at least one it drops the
  oldest entry and appends its message; with capacity zero the queue stays empty, the new
  message being the one dropped. After any sequence of calls the queue holds the last
  \<open>queue_maxlen\<close> entries of the old queue followed by the messages of the calls, oldest
  first.
\<close>

theorem queue_never_exceeds_capacity:
  "(length (message_queue c) \<le> queue_maxlen c \<longrightarrow>
      length (message_queue (foldl apply_enqueue c ops)) \<le> queue_maxlen c) \<and>
   (new_client did cfg = Inr c \<longrightarrow>
      int (length (message_queue (foldl apply_enqueue c ops)))
        \<le> max_queue_size (config (foldl apply_enqueue c ops))) \<and>
   fst (queue_raw_data now c tp data mt) =
     new_message now tp data mt BCMP_PROTOCOL_VERSION (client_sequence_number c + 1) None None \<and>
   map_sum id fst (queue_reading c sensor reading) = map_sum id fst (wrap_reading sensor reading) \<and>
   (queue_raw_data now c tp data mt = (Inl e, c1) \<longrightarrow> message_queue c1 = message_queue c) \<and>
   (length (message_queue c) < queue_maxlen c \<longrightarrow>
      message_queue (queue_message c m) = message_queue c @ [m] \<and>
      (queue_raw_data now c tp data mt = (Inr msg, c1) \<longrightarrow>
         message_queue c1 = message_queue c @ [msg]) \<and>
      (queue_reading c sensor reading = Inr (msg', c2, sensor') \<longrightarrow>
         message_queue c2 = message_queue c @ [msg'])) \<and>
   (0 < queue_maxlen c \<and> length (message_queue c) = queue_maxlen c \<longrightarrow>
      message_queue (queue_message c m) = tl (message_queue c) @ [m] \<and>
      (queue_raw_data now c tp data mt = (Inr msg, c1) \<longrightarrow>
         message_queue c1 = tl (message_queue c) @ [msg]) \<and>
      (queue_reading c sensor reading = Inr (msg', c2, sensor') \<longrightarrow>
         message_queue c2 = tl (message_queue c) @ [msg'])) \<and>
   (queue_maxlen c = 0 \<and> message_queue c = [] \<longrightarrow>
      message_queue (queue_message c m) = [] \<and>
      (queue_raw_data now c tp data mt = (Inr msg, c1) \<longrightarrow> message_queue c1 = []) \<and>
      (queue_reading c sensor reading = Inr (msg', c2, sensor') \<longrightarrow> message_queue c2 = [])) \<and>
   (length (message_queue c) \<le> queue_maxlen c \<longrightarrow>
      message_queue (foldl apply_enqueue c ops) =
        drop (length (message_queue c @ enqueued c ops) - queue_maxlen c)
          (message_queue c @ enqueued c ops))"
proof -
  have a: "length (message_queue c) \<le> queue_maxlen c \<longrightarrow>
      length (message_queue (foldl apply_enqueue c ops)) \<le> queue_maxlen c"
    using foldl_apply_enqueue [of c ops] by simp
  have b: "new_client did cfg = Inr c \<longrightarrow>
      int (length (message_queue (foldl apply_enqueue c ops)))
        \<le> max_queue_size (config (foldl apply_enqueue c ops))"
  proof
    assume nc: "new_client did cfg = Inr c"
    then have "length (message_queue c) \<le> queue_maxlen c"
      using new_client_queue [OF nc] by simp
    from foldl_apply_enqueue [OF this, of ops] new_client_queue [OF nc]
    show "int (length (message_queue (foldl apply_enqueue c ops)))
        \<le> max_queue_size (config (foldl apply_enqueue c ops))"
      by simp
  qed
  have d: "fst (queue_raw_data now c tp data mt) =
     new_message now tp data mt BCMP_PROTOCOL_VERSION (client_sequence_number c + 1) None None"
    by (simp add: queue_raw_data_def Let_def split: sum.splits)
  have e: "map_sum id fst (queue_reading c sensor reading) =
      map_sum id fst (wrap_reading sensor reading)"
    by (auto simp: queue_reading_def split: sum.splits prod.splits)
  have r: "queue_raw_data now c tp data mt = (Inl e, c1) \<longrightarrow> message_queue c1 = message_queue c"
    by (auto simp: queue_raw_data_def Let_def split: sum.splits)
  have room: "length (message_queue c) < queue_maxlen c \<longrightarrow>
      message_queue (queue_message c m) = message_queue c @ [m] \<and>
      (queue_raw_data now c tp data mt = (Inr msg, c1) \<longrightarrow>
         message_queue c1 = message_queue c @ [msg]) \<and>
      (queue_reading c sensor reading = Inr (msg', c2, sensor') \<longrightarrow>
         message_queue c2 = message_queue c @ [msg'])"
    by (auto simp: queue_message_def queue_raw_data_def queue_reading_def Let_def
        deque_append_room split: sum.splits prod.splits)
  have full: "0 < queue_maxlen c \<and> length (message_queue c) = queue_maxlen c \<longrightarrow>
      message_queue (queue_message c m) = tl (message_queue c) @ [m] \<and>
      (queue_raw_data now c tp data mt = (Inr msg, c1) \<longrightarrow>
         message_queue c1 = tl (message_queue c) @ [msg]) \<and>
      (queue_reading c sensor reading = Inr (msg', c2, sensor') \<longrightarrow>
         message_queue c2 = tl (message_queue c) @ [msg'])"
    by (auto simp: queue_message_def queue_raw_data_def queue_reading_def Let_def
        deque_append_full split: sum.splits prod.splits)
  have zero: "queue_maxlen c = 0 \<and> message_queue c = [] \<longrightarrow>
      message_queue (queue_message c m) = [] \<and>
      (queue_raw_data now c tp data mt = (Inr msg, c1) \<longrightarrow> message_queue c1 = []) \<and>
      (queue_reading c sensor reading = Inr (msg', c2, sensor') \<longrightarrow> message_queue c2 = [])"
    by (auto simp: queue_message_def queue_raw_data_def queue_reading_def Let_def
        deque_append_def split: sum.splits prod.splits)
  have g: "length (message_queue c) \<le> queue_maxlen c \<longrightarrow>
      message_queue (foldl apply_enqueue c ops) =
        drop (length (message_queue c @ enqueued c ops) - queue_maxlen c)
          (message_queue c @ enqueued c ops)"
    using foldl_apply_enqueue_queue [of c ops] by simp
  from a b d e r room full zero g show ?thesis by blast
qed

theorem queue_never_exceeds_capacity_witness:
  "message_queue
     (foldl apply_enqueue (test_client 5 :: unit SpotterBuoyClient)
        [QueueMessage (test_message 0), QueueMessage (test_message 1),
         QueueMessage (test_message 2), QueueMessage (test_message 3),
         QueueMessage (test_message 4),
         QueueRawData 0x41D26580B4800000 test_topic [0x74] SENSOR_DATA,
         QueueReading test_sensor test_reading,
         QueueMessage (test_message 7), QueueMessage (test_message 8),
         QueueMessage (test_message 9)]) =
     [\<lparr>topic = test_topic, payload = [0x74], message_type = SENSOR_DATA, version = 1,
       sequence_number = 1, timestamp = 0x41D26580B4800000, source_node_id = None\<rparr>,
      \<lparr>topic = spotter_topic ''spotter/sensor/temperature'',
       payload = [0x40, 0x34, 0, 0, 0, 0, 0, 0, 0, 0, 1, 0x1F, 0x71, 0xFB, 4, 0x50, 0x64,
                  0xBF, 0x80, 0, 0],
       message_type = SENSOR_DATA, version = 1, sequence_number = 1,
       timestamp = 0x41D26580B4800000, source_node_id = None\<rparr>,
      test_message 7, test_message 8, test_message 9]"
  using queue_never_exceeds_capacity
    [where c = "test_client 5 :: unit SpotterBuoyClient"
       and ops = "[QueueMessage (test_message 0), QueueMessage (test_message 1),
         QueueMessage (test_message 2), QueueMessage (test_message 3),
         QueueMessage (test_message 4),
         QueueRawData 0x41D26580B4800000 test_topic [0x74] SENSOR_DATA,
         QueueReading test_sensor test_reading,
         QueueMessage (test_message 7), QueueMessage (test_message 8),
         QueueMessage (test_message 9)]"]
  by (simp add: test_client_simps queue_message_def queue_raw_data_def queue_reading_def
      wrap_test_reading deque_append_def new_message_def MAX_PAYLOAD_SIZE_def
      BCMP_PROTOCOL_VERSION_def)

text \<open>
  The claim as stated fails for the capacity \<open>0\<close>: the empty queue is at capacity, and the
  enqueued message is not admitted.
\<close>

theorem queue_capacity_zero_counterexample:
  "get_queue_size (test_client 0 :: unit SpotterBuoyClient)
     = queue_maxlen (test_client 0 :: unit SpotterBuoyClient) \<and>
   message_queue (queue_message (test_client 0 :: unit SpotterBuoyClient) (test_message 0)) = [] \<and>
   message_queue (queue_message (test_client 0 :: unit SpotterBuoyClient) (test_message 0))
     \<noteq> tl (message_queue (test_client 0 :: unit SpotterBuoyClient)) @ [test_message 0]"
  by (simp add: test_client_simps get_queue_size_def queue_message_def deque_append_def)


section \<open>Transmission\<close>

lemma to_bytes_pack:
  "to_bytes md5 m =
     (case pack_without_checksum m of
        Inl e \<Rightarrow> Inl e
      | Inr data \<Rightarrow> Inr (data @ take 4 (digest_bytes (md5 data))))"
  by (simp add: to_bytes_def calculate_checksum_def split: sum.splits)

lemma length_be_bytes [simp]: "length (be_bytes n v) = n"
  by (induction n) simp_all

lemma length_digest_bytes [simp]: "length (digest_bytes d) = 16"
  by (simp add: digest_bytes_def del: be_bytes_numeral)








lemma utf8_encode_test: "utf8_encode (pystr_of ''test'') = Inr [0x74, 0x65, 0x73, 0x74]"
  by (simp add: pystr_of_def utf8_char_def)

lemma pack_test_message:
  "0 \<le> n \<Longrightarrow> n < 2 ^ 32 \<Longrightarrow>
   pack_without_checksum (test_message n) =
     Inr ([0xBC, 1, 0, 1] @ be_bytes 4 (nat n)
          @ [0, 0, 1, 0x1F, 0x71, 0xFB, 4, 0x50, 0, 0, 0, 0, 0, 0,
             0, 7, 1, 0, 4, 0x74, 0x65, 0x73, 0x74, 0, 4, 0x74, 0x65, 0x73, 0x74])"
  by (simp add: pack_without_checksum_def test_message_def test_topic_def topic_to_bytes_def
      utf8_encode_test pack_header_def millis_of_test_timestamp pack_uint_def
      BCMP_PROTOCOL_VERSION_def BCMP_HEADER_MAGIC_def pack_6s_def source_or_zeros_def)






section \<open>Big-endian integers\<close>

lemma be_nat_Nil [simp]: "be_nat [] = 0"
  by (simp add: be_nat_def)

lemma be_nat_snoc: "be_nat (bs @ [b]) = be_nat bs * 256 + unat b"
  by (simp add: be_nat_def)

lemma be_nat_foldl: "foldl (\<lambda>a b. a * 256 + unat b) a bs = a * 256 ^ length bs + be_nat bs"
proof (induction bs rule: rev_induct)
  case Nil
  then show ?case by simp
next
  case (snoc b bs)
  then show ?case by (simp add: be_nat_def algebra_simps)
qed

lemma be_nat_Cons: "be_nat (b # bs) = unat b * 256 ^ length bs + be_nat bs"
  using be_nat_foldl [of "unat b" bs] by (simp add: be_nat_def)

lemma unat_of_nat_byte: "unat (of_nat n :: byte) = n mod 256"
  by (simp add: unat_of_nat)

lemma be_nat_be_bytes: "be_nat (be_bytes n v) = v mod 256 ^ n"
proof (induction n)
  case 0
  then show ?case by simp
next
  case (Suc n)
  have "v mod (256 ^ n * 256) = 256 ^ n * (v div 256 ^ n mod 256) + v mod 256 ^ n"
    by (rule mod_mult2_eq)
  then show ?case using Suc by (simp add: be_nat_Cons unat_of_nat_byte mult.commute)
qed

lemma be_nat_less: "be_nat bs < 256 ^ length bs"
proof (induction bs rule: rev_induct)
  case Nil
  then show ?case by simp
next
  case (snoc b bs)
  have "unat b < 256" using unat_of_nat_byte [of "unat b"] mod_less_divisor [of 256 "unat b"] by simp
  then show ?case using snoc by (simp add: be_nat_snoc)
qed

lemma unpack_pack_uint: "pack_uint n v = Inr bs \<Longrightarrow> unpack_uint n bs = Inr v"
  by (auto simp: pack_uint_def unpack_uint_def be_nat_be_bytes split: if_splits)

lemma pack_uint_length: "pack_uint n v = Inr bs \<Longrightarrow> length bs = n"
  by (auto simp: pack_uint_def split: if_splits)

section \<open>UTF-8\<close>

lemma unat_byte_small: "n < 256 \<Longrightarrow> unat (of_nat n :: byte) = n"
  by (simp add: unat_of_nat)

lemma utf8_char_length: "utf8_char c = Inr b \<Longrightarrow> 1 \<le> length b \<and> length b \<le> 4"
  by (auto simp: utf8_char_def split: if_splits)

lemma utf8_encode_length:
  "utf8_encode cs = Inr bs \<Longrightarrow> length cs \<le> length bs \<and> length bs \<le> 4 * length cs"
proof (induction cs arbitrary: bs)
  case Nil
  then show ?case by simp
next
  case (Cons c cs)
  then obtain b bs' where b: "utf8_char c = Inr b" and bs': "utf8_encode cs = Inr bs'"
    and bs: "bs = b @ bs'"
    by (auto split: sum.splits)
  show ?case using utf8_char_length [OF b] Cons.IH [OF bs'] bs by simp
qed

lemma utf8_decode_char:
  "utf8_char c = Inr b \<Longrightarrow> utf8_decode (b @ rest) = cons_char c (utf8_decode rest)"
proof -
  assume enc: "utf8_char c = Inr b"
  consider "c < 0x80" | "0x80 \<le> c" "c < 0x800" | "0x800 \<le> c" "c < 0x10000"
    | "0x10000 \<le> c" "c < 0x110000" | "0x110000 \<le> c"
    by linarith
  then show ?thesis
  proof cases
    case 1
    then show ?thesis using enc by (auto simp: utf8_char_def unat_byte_small)
  next
    case 2
    define b0 :: byte where "b0 = of_nat (0xC0 + c div 64)"
    define b1 :: byte where "b1 = of_nat (0x80 + c mod 64)"
    have b: "b = [b0, b1]" using enc 2 by (auto simp: utf8_char_def b0_def b1_def)
    have d: "c div 64 < 32" using 2 by simp
    have u0: "unat b0 = 0xC0 + c div 64"
      unfolding b0_def using d by (intro unat_byte_small) simp
    have u1: "unat b1 = 0x80 + c mod 64"
      unfolding b1_def by (intro unat_byte_small) simp
    have r: "\<not> unat b0 < 0x80" "0xC0 \<le> unat b0" "unat b0 < 0xE0" "is_cont b1"
      using d by (simp_all add: u0 u1 is_cont_def)
    have dec: "(unat b0 - 0xC0) * 64 + (unat b1 - 0x80) = c"
      by (simp add: u0 u1)
    show ?thesis using 2 by (simp add: b r dec)
  next
    case 3
    then have ns: "\<not> (0xD800 \<le> c \<and> c \<le> 0xDFFF)" using enc by (auto simp: utf8_char_def)
    define b0 :: byte where "b0 = of_nat (0xE0 + c div 4096)"
    define b1 :: byte where "b1 = of_nat (0x80 + c div 64 mod 64)"
    define b2 :: byte where "b2 = of_nat (0x80 + c mod 64)"
    have b: "b = [b0, b1, b2]"
      using enc 3 ns by (auto simp: utf8_char_def b0_def b1_def b2_def)
    have d: "c div 4096 < 16" using 3 by simp
    have u0: "unat b0 = 0xE0 + c div 4096"
      unfolding b0_def using d by (intro unat_byte_small) simp
    have u1: "unat b1 = 0x80 + c div 64 mod 64"
      unfolding b1_def by (intro unat_byte_small) simp
    have u2: "unat b2 = 0x80 + c mod 64"
      unfolding b2_def by (intro unat_byte_small) simp
    have r: "\<not> unat b0 < 0x80" "\<not> (0xC0 \<le> unat b0 \<and> unat b0 < 0xE0)"
        "0xE0 \<le> unat b0" "unat b0 < 0xF0" "is_cont b1" "is_cont b2"
      using d by (simp_all add: u0 u1 u2 is_cont_def)
    have "c mod (64 * 64) = 64 * (c div 64 mod 64) + c mod 64" by (rule mod_mult2_eq)
    then have "c div 4096 * 4096 + c div 64 mod 64 * 64 + c mod 64 = c"
      using div_mult_mod_eq [of c 4096] by simp
    then have dec: "(unat b0 - 0xE0) * 4096 + (unat b1 - 0x80) * 64 + (unat b2 - 0x80) = c"
      by (simp add: u0 u1 u2)
    show ?thesis using 3 ns by (simp add: b r dec)
  next
    case 4
    define b0 :: byte where "b0 = of_nat (0xF0 + c div 262144)"
    define b1 :: byte where "b1 = of_nat (0x80 + c div 4096 mod 64)"
    define b2 :: byte where "b2 = of_nat (0x80 + c div 64 mod 64)"
    define b3 :: byte where "b3 = of_nat (0x80 + c mod 64)"
    have b: "b = [b0, b1, b2, b3]"
      using enc 4 by (auto simp: utf8_char_def b0_def b1_def b2_def b3_def)
    have d: "c div 262144 < 8" using 4 by simp
    have u0: "unat b0 = 0xF0 + c div 262144"
      unfolding b0_def using d by (intro unat_byte_small) simp
    have u1: "unat b1 = 0x80 + c div 4096 mod 64"
      unfolding b1_def by (intro unat_byte_small) simp
    have u2: "unat b2 = 0x80 + c div 64 mod 64"
      unfolding b2_def by (intro unat_byte_small) simp
    have u3: "unat b3 = 0x80 + c mod 64"
      unfolding b3_def by (intro unat_byte_small) simp
    have r: "\<not> unat b0 < 0x80" "\<not> (0xC0 \<le> unat b0 \<and> unat b0 < 0xE0)"
        "\<not> (0xE0 \<le> unat b0 \<and> unat b0 < 0xF0)"
        "0xF0 \<le> unat b0" "unat b0 < 0xF8" "is_cont b1" "is_cont b2" "is_cont b3"
      using d by (simp_all add: u0 u1 u2 u3 is_cont_def)
    have "c mod (64 * 64) = 64 * (c div 64 mod 64) + c mod 64" by (rule mod_mult2_eq)
    moreover have "c mod (4096 * 64) = 4096 * (c div 4096 mod 64) + c mod 4096"
      by (rule mod_mult2_eq)
    ultimately
    have "c div 262144 * 262144 + c div 4096 mod 64 * 4096 + c div 64 mod 64 * 64 + c mod 64 = c"
      using div_mult_mod_eq [of c 262144] by simp
    then have dec: "(unat b0 - 0xF0) * 262144 + (unat b1 - 0x80) * 4096
        + (unat b2 - 0x80) * 64 + (unat b3 - 0x80) = c"
      by (simp add: u0 u1 u2 u3)
    show ?thesis using 4 by (simp add: b r dec)
  next
    case 5
    then show ?thesis using enc by (auto simp: utf8_char_def)
  qed
qed

lemma utf8_decode_encode: "utf8_encode cs = Inr bs \<Longrightarrow> utf8_decode bs = Inr cs"
proof (induction cs arbitrary: bs)
  case Nil
  then show ?case by simp
next
  case (Cons c cs)
  then obtain b bs' where b: "utf8_char c = Inr b" and bs': "utf8_encode cs = Inr bs'"
    and bs: "bs = b @ bs'"
    by (auto split: sum.splits)
  show ?case using utf8_decode_char [OF b, of bs'] Cons.IH [OF bs'] bs
    by (simp add: cons_char_def)
qed


section \<open>Topics\<close>

lemma new_topic_cases:
  "(new_topic nm ver nid = Inl TopicNameEmpty \<longleftrightarrow> nm = []) \<and>
   (new_topic nm ver nid = Inl TopicNameTooLong \<longleftrightarrow> 64 < length nm) \<and>
   ((\<exists>t. new_topic nm ver nid = Inr t) \<longleftrightarrow> 1 \<le> length nm \<and> length nm \<le> 64) \<and>
   (1 \<le> length nm \<and> length nm \<le> 64 \<longrightarrow>
      new_topic nm ver nid = Inr \<lparr>name = nm, topic_version = ver, node_id = nid\<rparr>)"
  by (cases nm) (auto simp: new_topic_def)

text \<open>
  Claim C6.  The constructor of a topic measures the name with \<^verbatim>\<open>len\<close>, the number of
  characters (code points) of the string, not the number of bytes of its UTF-8 encoding.  It
  raises "Topic name cannot be empty" exactly for the empty name, "Topic name cannot exceed 64
  characters" exactly for a name of more than 64 characters, and accepts exactly the names of 1
  to 64 characters; both errors are format errors.  The encoding of a name has between one and
  four bytes for each character, so every name whose encoding has 1 to 64 bytes is accepted.
\<close>

theorem topic_name_bounds_count_characters:
  "(new_topic nm ver nid = Inl TopicNameEmpty \<longleftrightarrow> nm = []) \<and>
   (new_topic nm ver nid = Inl TopicNameTooLong \<longleftrightarrow> 64 < length nm) \<and>
   ((\<exists>t. new_topic nm ver nid = Inr t) \<longleftrightarrow> 1 \<le> length nm \<and> length nm \<le> 64) \<and>
   (1 \<le> length nm \<and> length nm \<le> 64 \<longrightarrow>
      new_topic nm ver nid = Inr \<lparr>name = nm, topic_version = ver, node_id = nid\<rparr>) \<and>
   kind_of TopicNameEmpty = FormatError \<and> kind_of TopicNameTooLong = FormatError \<and>
   (utf8_encode nm = Inr bs \<longrightarrow> length nm \<le> length bs \<and> length bs \<le> 4 * length nm) \<and>
   (utf8_encode nm = Inr bs \<longrightarrow> 1 \<le> length bs \<and> length bs \<le> 64 \<longrightarrow>
      new_topic nm ver nid = Inr \<lparr>name = nm, topic_version = ver, node_id = nid\<rparr>)"
proof -
  have "utf8_encode nm = Inr bs \<longrightarrow> 1 \<le> length bs \<and> length bs \<le> 64 \<longrightarrow>
      1 \<le> length nm \<and> length nm \<le> 64"
    using utf8_encode_length [of nm bs] by (cases nm) auto
  then show ?thesis
    using new_topic_cases [of nm ver nid] utf8_encode_length [of nm bs] by auto
qed

theorem topic_name_bounds_count_characters_witness:
  "new_topic (pystr_of ''test'') 1 None = Inr test_topic \<and>
   utf8_encode (pystr_of ''test'') = Inr [0x74, 0x65, 0x73, 0x74] \<and>
   new_topic [] 1 None = Inl TopicNameEmpty \<and>
   new_topic (replicate 65 0x61) 1 None = Inl TopicNameTooLong"
  using topic_name_bounds_count_characters
    [of "pystr_of ''test''" 1 None "[0x74, 0x65, 0x73, 0x74]"]
    topic_name_bounds_count_characters [of "[]" 1 None "[]"]
    topic_name_bounds_count_characters [of "replicate 65 0x61" 1 None "[]"]
  by (simp add: utf8_char_def test_topic_def pystr_of_def new_topic_def del: replicate_numeral_Cons)

text \<open>
  Claim C6, the byte bound.  A name of 33 characters, each the letter e with an acute accent
  (U+00E9, two bytes in UTF-8), has an encoding of 66 bytes and is accepted.
\<close>

theorem topic_name_bytes_counterexample:
  "length (projr (utf8_encode (replicate 33 0xE9))) = 66 \<and>
   new_topic (replicate 33 0xE9) 1 None =
     Inr \<lparr>name = replicate 33 0xE9, topic_version = 1, node_id = None\<rparr>"
  by (simp add: utf8_char_def new_topic_def)

lemma uint_byte_of_nat: "n < 256 \<Longrightarrow> uint (of_nat n :: byte) = int n"
  by (simp add: uint_nat unat_of_nat)

lemma topic_to_bytes_shape:
  "topic_to_bytes t = Inr tb \<Longrightarrow>
   \<exists>nb. utf8_encode (name t) = Inr nb \<and> length nb < 65536 \<and> 0 \<le> topic_version t \<and>
        topic_version t < 256 \<and>
        tb = be_bytes 1 (nat (topic_version t)) @ be_bytes 2 (length nb) @ nb"
  by (auto simp: topic_to_bytes_def pack_uint_def split: sum.splits if_splits)

lemma topic_from_to_bytes:
  assumes "topic_to_bytes t = Inr tb" "name t \<noteq> []" "length (name t) \<le> 64"
  shows "topic_from_bytes tb = Inr (t\<lparr>node_id := None\<rparr>)"
proof -
  obtain nb where nb: "utf8_encode (name t) = Inr nb" "length nb < 65536"
      "0 \<le> topic_version t" "topic_version t < 256"
      and tb: "tb = be_bytes 1 (nat (topic_version t)) @ be_bytes 2 (length nb) @ nb"
    using topic_to_bytes_shape [OF assms(1)] by blast
  define v :: byte where "v = of_nat (nat (topic_version t))"
  define R where "R = be_bytes 2 (length nb) @ nb"
  have tb': "tb = v # R" by (simp add: tb v_def R_def del: be_bytes_numeral)
  have v: "uint v = topic_version t"
    using nb(3,4) by (simp add: v_def uint_word_of_int take_bit_eq_mod)
  have 1: "unpack_uint 2 (slice 1 3 (v # R)) = Inr (int (length nb))"
    using nb(2) by (simp add: R_def slice_def unpack_uint_def be_nat_be_bytes del: be_bytes_numeral)
  have 2: "utf8_decode (slice 3 (3 + nat (int (length nb))) (v # R)) = Inr (name t)"
    using utf8_decode_encode [OF nb(1)] by (simp add: R_def slice_def del: be_bytes_numeral)
  have "topic_from_bytes (v # R) = new_topic (name t) (topic_version t) None"
    by (simp only: topic_from_bytes_def list.case 1 2 sum.case v)
  also have "\<dots> = Inr (t\<lparr>node_id := None\<rparr>)"
    using assms(2,3) by (simp add: new_topic_def)
  finally show ?thesis by (simp add: tb')
qed


section \<open>Messages\<close>

lemma from_bytes_decode_fields:
  "from_bytes md5 data =
     (case decode_fields data of
        Inl e \<Rightarrow> Inl e
      | Inr (msg, received_checksum) \<Rightarrow>
          (case calculate_checksum md5 msg of
             Inl e \<Rightarrow> Inl e
           | Inr expected_checksum \<Rightarrow>
               if received_checksum \<noteq> expected_checksum then Inl ChecksumMismatch
               else Inr msg))"
  by (simp add: from_bytes_def decode_fields_def split: sum.splits)

lemma decode_fields_layout:
  assumes "length b0 = 1" "length b1 = 1" "length b2 = 2" "length b3 = 4" "length b4 = 8"
    "length s6 = 6" "length tl2 = 2" "be_nat tl2 = length tb" "length pl2 = 2"
    "be_nat pl2 = length pl"
  shows "decode_fields (b0 @ b1 @ b2 @ b3 @ b4 @ s6 @ tl2 @ tb @ pl2 @ pl @ ck) =
     (if int (be_nat b0) \<noteq> BCMP_HEADER_MAGIC then Inl (InvalidMagic (hd b0))
      else
        (case topic_from_bytes tb of
           Inl e \<Rightarrow> Inl e
         | Inr tp \<Rightarrow>
        (case MessageType_of (int (be_nat b2)) of
           Inl e \<Rightarrow> Inl e
         | Inr mt \<Rightarrow>
        (case seconds_of_millis (int (be_nat b4)) of
           Inl e \<Rightarrow> Inl e
         | Inr ts \<Rightarrow>
        (case new_message_at tp pl mt (int (be_nat b1)) (int (be_nat b3)) ts (Some s6) of
           Inl e \<Rightarrow> Inl e
         | Inr msg \<Rightarrow> Inr (msg, take 4 ck))))))"
proof -
  let ?d = "b0 @ b1 @ b2 @ b3 @ b4 @ s6 @ tl2 @ tb @ pl2 @ pl @ ck"
  have s: "slice 0 1 ?d = b0" "slice 1 2 ?d = b1" "slice 2 4 ?d = b2" "slice 4 8 ?d = b3"
    "slice 8 16 ?d = b4" "slice 16 22 ?d = s6" "slice 22 24 ?d = tl2"
    "slice 24 (24 + length tb) ?d = tb"
    "slice (24 + length tb) (26 + length tb) ?d = pl2"
    "slice (26 + length tb) (26 + length tb + length pl) ?d = pl"
    "slice (26 + length tb + length pl) (30 + length tb + length pl) ?d = take 4 ck"
    using assms by (simp_all add: slice_def)
  have h: "hd ?d = hd b0" using assms(1) by (cases b0) simp_all
  have l: "\<not> length ?d < 22" using assms by simp
  show ?thesis
    unfolding decode_fields_def
    by (simp only: l if_False s h unpack_uint_def assms refl if_True sum.case nat_int)
qed


lemma MessageType_of_value: "MessageType_of (MessageType_value mt) = Inr mt"
  by (cases mt) (simp_all add: MessageType_of_def)

lemma MessageType_value_range: "0 \<le> MessageType_value mt \<and> MessageType_value mt < 65536"
  by (cases mt) simp_all

lemma pack_6s_length: "length (pack_6s bs) = 6"
  by (simp add: pack_6s_def del: replicate_numeral_Cons)

lemma pack_6s_six: "length bs = 6 \<Longrightarrow> pack_6s bs = bs"
  by (simp add: pack_6s_def del: replicate_numeral_Cons)

lemma source_or_zeros_six: "length bs = 6 \<Longrightarrow> source_or_zeros (Some bs) = bs"
  by (auto simp: source_or_zeros_def)

lemma pack_header_shape:
  "pack_header m = Inr h \<longleftrightarrow>
   (\<exists>ms. millis_of_seconds (timestamp m) = Inr ms \<and> 0 \<le> ms \<and> ms < 2 ^ 64 \<and>
      0 \<le> version m \<and> version m < 256 \<and>
      0 \<le> sequence_number m \<and> sequence_number m < 2 ^ 32 \<and>
      h = be_bytes 1 188 @ be_bytes 1 (nat (version m)) @
          be_bytes 2 (nat (MessageType_value (message_type m))) @
          be_bytes 4 (nat (sequence_number m)) @ be_bytes 8 (nat ms) @
          pack_6s (source_or_zeros (source_node_id m)))"
  using MessageType_value_range [of "message_type m"]
  by (auto simp: pack_header_def pack_uint_def BCMP_HEADER_MAGIC_def
      simp del: be_bytes_numeral split: sum.splits)


lemma pack_without_checksum_shape:
  "pack_without_checksum m = Inr body \<longleftrightarrow>
   (\<exists>h tb. pack_header m = Inr h \<and> topic_to_bytes (topic m) = Inr tb \<and>
      length tb < 65536 \<and> length (payload m) < 65536 \<and>
      body = h @ be_bytes 2 (length tb) @ tb @ be_bytes 2 (length (payload m)) @ payload m)"
  by (auto simp: pack_without_checksum_def pack_uint_def simp del: be_bytes_numeral
      split: sum.splits)


lemma decode_fields_encoded:
  assumes body: "pack_without_checksum m = Inr body"
    and nm: "name (topic m) \<noteq> []" "length (name (topic m)) \<le> 64"
    and pl: "length (payload m) \<le> MAX_PAYLOAD_SIZE"
    and ms: "millis_of_seconds (timestamp m) = Inr ms"
    and ts: "seconds_of_millis ms = Inr ts"
  shows "decode_fields (body @ ck) =
     Inr (\<lparr>topic = (topic m)\<lparr>node_id := None\<rparr>, payload = payload m,
           message_type = message_type m, version = version m,
           sequence_number = sequence_number m, timestamp = ts,
           source_node_id = Some (pack_6s (source_or_zeros (source_node_id m)))\<rparr>,
          take 4 ck)"
proof -
  obtain h tb where h: "pack_header m = Inr h" and tb: "topic_to_bytes (topic m) = Inr tb"
    and len: "length tb < 65536" "length (payload m) < 65536"
    and b: "body = h @ be_bytes 2 (length tb) @ tb @ be_bytes 2 (length (payload m)) @ payload m"
    using body pack_without_checksum_shape [of m body] by blast
  have r: "0 \<le> ms" "ms < 2 ^ 64" "0 \<le> version m" "version m < 256"
      "0 \<le> sequence_number m" "sequence_number m < 2 ^ 32"
    and hh: "h = be_bytes 1 188 @ be_bytes 1 (nat (version m)) @
          be_bytes 2 (nat (MessageType_value (message_type m))) @
          be_bytes 4 (nat (sequence_number m)) @ be_bytes 8 (nat ms) @
          pack_6s (source_or_zeros (source_node_id m))"
    using h ms pack_header_shape [of m h] by auto
  have mt: "0 \<le> MessageType_value (message_type m)" "MessageType_value (message_type m) < 65536"
    using MessageType_value_range [of "message_type m"] by auto
  have n1: "be_nat [188 :: byte] = 188"
      "int (be_nat [of_nat (nat (version m)) :: byte]) = version m"
    using r by (simp_all add: be_nat_def uint_word_of_int take_bit_eq_mod)
  have n: "int (be_nat (be_bytes 2 (nat (MessageType_value (message_type m))))) =
         MessageType_value (message_type m)"
      "int (be_nat (be_bytes 4 (nat (sequence_number m)))) = sequence_number m"
      "int (be_nat (be_bytes 8 (nat ms))) = ms"
      "be_nat (be_bytes 2 (length tb)) = length tb"
      "be_nat (be_bytes 2 (length (payload m))) = length (payload m)"
    using r mt len by (simp_all add: be_nat_be_bytes nat_less_iff del: be_bytes_numeral)
  have d: "decode_fields
      (be_bytes 1 188 @ be_bytes 1 (nat (version m)) @
       be_bytes 2 (nat (MessageType_value (message_type m))) @
       be_bytes 4 (nat (sequence_number m)) @ be_bytes 8 (nat ms) @
       pack_6s (source_or_zeros (source_node_id m)) @
       be_bytes 2 (length tb) @ tb @ be_bytes 2 (length (payload m)) @ payload m @ ck) =
     Inr (\<lparr>topic = (topic m)\<lparr>node_id := None\<rparr>, payload = payload m,
           message_type = message_type m, version = version m,
           sequence_number = sequence_number m, timestamp = ts,
           source_node_id = Some (pack_6s (source_or_zeros (source_node_id m)))\<rparr>,
          take 4 ck)"
    using pl
    by (subst decode_fields_layout)
       (simp_all add: n n1 pack_6s_length BCMP_HEADER_MAGIC_def topic_from_to_bytes [OF tb nm]
          MessageType_of_value ts new_message_at_def new_message_def
          del: be_bytes_numeral)
  show ?thesis unfolding b hh using d by simp
qed


lemma topic_to_bytes_node_id: "topic_to_bytes (t\<lparr>node_id := n\<rparr>) = topic_to_bytes t"
  by (simp add: topic_to_bytes_def split: sum.splits)

lemma pack_header_decoded:
  assumes "pack_header m = Inr h" "millis_of_seconds (timestamp m) = Inr ms"
    "millis_of_seconds ts = Inr ms"
  shows "pack_header \<lparr>topic = tp, payload = pl,
           message_type = message_type m, version = version m,
           sequence_number = sequence_number m, timestamp = ts,
           source_node_id = Some (pack_6s (source_or_zeros (source_node_id m)))\<rparr> = Inr h"
  using assms
  by (simp add: pack_header_shape source_or_zeros_six pack_6s_six pack_6s_length
      del: be_bytes_numeral)

lemma pack_decoded:
  assumes "pack_without_checksum m = Inr body" "millis_of_seconds (timestamp m) = Inr ms"
    "millis_of_seconds ts = Inr ms"
  shows "pack_without_checksum \<lparr>topic = (topic m)\<lparr>node_id := None\<rparr>, payload = payload m,
           message_type = message_type m, version = version m,
           sequence_number = sequence_number m, timestamp = ts,
           source_node_id = Some (pack_6s (source_or_zeros (source_node_id m)))\<rparr> = Inr body"
proof -
  obtain h tb where h: "pack_header m = Inr h" and tb: "topic_to_bytes (topic m) = Inr tb"
    and len: "length tb < 65536" "length (payload m) < 65536"
    and b: "body = h @ be_bytes 2 (length tb) @ tb @ be_bytes 2 (length (payload m)) @ payload m"
    using assms(1) pack_without_checksum_shape [of m body] by blast
  show ?thesis
    using len tb b pack_header_decoded [OF h assms(2,3)]
    by (simp add: pack_without_checksum_shape topic_to_bytes_node_id del: be_bytes_numeral)
qed

lemma from_bytes_encoded:
  assumes body: "pack_without_checksum m = Inr body"
    and nm: "name (topic m) \<noteq> []" "length (name (topic m)) \<le> 64"
    and pl: "length (payload m) \<le> MAX_PAYLOAD_SIZE"
    and ms: "millis_of_seconds (timestamp m) = Inr ms"
    and ts: "seconds_of_millis ms = Inr ts"
    and rt: "millis_of_seconds ts = Inr ms"
  shows "from_bytes md5 (body @ ck) =
     (if take 4 ck \<noteq> take 4 (digest_bytes (md5 body)) then Inl ChecksumMismatch
      else Inr \<lparr>topic = (topic m)\<lparr>node_id := None\<rparr>, payload = payload m,
           message_type = message_type m, version = version m,
           sequence_number = sequence_number m, timestamp = ts,
           source_node_id = Some (pack_6s (source_or_zeros (source_node_id m)))\<rparr>)"
  by (simp add: from_bytes_decode_fields decode_fields_encoded [OF body nm pl ms ts]
      calculate_checksum_def pack_decoded [OF body ms rt])


lemma to_bytes_iff:
  "to_bytes md5 m = Inr data \<longleftrightarrow>
   (\<exists>body. pack_without_checksum m = Inr body \<and>
      data = body @ take 4 (digest_bytes (md5 body)))"
  by (auto simp: to_bytes_pack split: sum.splits)



lemma seconds_of_test_millis: "seconds_of_millis 1234567890000 = Inr 0x41D26580B4800000"
  by (simp add: fl_eval cong: let_weak_cong)

lemma to_bytes_test_message_1:
  "to_bytes md5 (test_message 1) =
     Inr ([0xBC, 1, 0, 1, 0, 0, 0, 1, 0, 0, 1, 0x1F, 0x71, 0xFB, 4, 0x50, 0, 0, 0, 0, 0, 0,
           0, 7, 1, 0, 4, 0x74, 0x65, 0x73, 0x74, 0, 4, 0x74, 0x65, 0x73, 0x74] @
          take 4 (digest_bytes (md5
            [0xBC, 1, 0, 1, 0, 0, 0, 1, 0, 0, 1, 0x1F, 0x71, 0xFB, 4, 0x50, 0, 0, 0, 0, 0, 0,
             0, 7, 1, 0, 4, 0x74, 0x65, 0x73, 0x74, 0, 4, 0x74, 0x65, 0x73, 0x74])))"
  by (simp add: to_bytes_pack pack_test_message)












section \<open>Decoding errors\<close>

lemma magic_test:
  "data \<noteq> [] \<Longrightarrow> (int (be_nat (slice 0 1 data)) \<noteq> BCMP_HEADER_MAGIC) = (hd data \<noteq> 0xBC)"
  by (cases data)
     (simp_all add: slice_def be_nat_def BCMP_HEADER_MAGIC_def word_uint_eq_iff)

lemma cons_char_error: "cons_char c r = Inl e \<Longrightarrow> r = Inl e"
  by (simp add: cons_char_def split: sum.splits)

lemma utf8_decode_error: "utf8_decode bs = Inl e \<Longrightarrow> e = UnicodeDecodeError"
proof (induction "length bs" arbitrary: bs e rule: less_induct)
  case less
  show ?case
  proof (cases bs)
    case Nil
    then show ?thesis using less.prems by simp
  next
    case (Cons b0 r)
    have ih: "cons_char c (utf8_decode r') = Inl e \<Longrightarrow> length r' \<le> length r \<Longrightarrow>
        e = UnicodeDecodeError" for r' c
      using less.hyps [of r' e] cons_char_error [of c "utf8_decode r'" e] Cons by simp
    have "utf8_decode (b0 # r) = Inl e" using less.prems Cons by simp
    then show ?thesis
      apply (simp only: utf8_decode.simps Let_def split: if_splits list.splits)
      apply (auto elim: ih)
      done
  qed
qed

lemma utf8_encode_error: "utf8_encode cs = Inl e \<Longrightarrow> e = UnicodeEncodeError"
  by (induction cs arbitrary: e) (auto simp: utf8_char_def split: sum.splits if_splits)

lemma unpack_uint_error: "unpack_uint n bs = Inl e \<Longrightarrow> e = StructError"
  by (simp add: unpack_uint_def split: if_splits)

lemma pack_uint_error: "pack_uint n v = Inl e \<Longrightarrow> e = StructError"
  by (simp add: pack_uint_def split: if_splits)

lemma topic_from_bytes_error:
  "topic_from_bytes d = Inl e \<Longrightarrow>
   e \<in> {IndexError, StructError, UnicodeDecodeError, TopicNameEmpty, TopicNameTooLong}"
  by (auto simp: topic_from_bytes_def new_topic_def
      dest: unpack_uint_error utf8_decode_error split: list.splits sum.splits if_splits)

lemma seconds_of_millis_error:
  "seconds_of_millis ms = Inl e \<Longrightarrow> e \<in> {OverflowError, ZeroDivisionError}"
  by (auto simp: seconds_of_millis_def f64_of_int_def f64_div_def Let_def
      split: sum.splits if_splits)

lemma millis_of_seconds_error:
  "millis_of_seconds t = Inl e \<Longrightarrow> e \<in> {OverflowError, FloatNaNToInt}"
  by (auto simp: millis_of_seconds_def f64_to_int_def Let_def split: if_splits)

lemma MessageType_of_error: "MessageType_of v = Inl e \<Longrightarrow> e = InvalidMessageType v"
  by (simp add: MessageType_of_def split: if_splits)

lemma new_message_at_error:
  "new_message_at tp pl mt ver seq ts src = Inl e \<Longrightarrow> e = PayloadTooLarge (length pl)"
  by (simp add: new_message_at_def new_message_def split: if_splits)

lemma calculate_checksum_error:
  "calculate_checksum md5 m = Inl e \<Longrightarrow>
   e \<in> {StructError, UnicodeEncodeError, OverflowError, FloatNaNToInt}"
  by (auto simp: calculate_checksum_def pack_without_checksum_def pack_header_def
      topic_to_bytes_def
      dest: pack_uint_error utf8_encode_error dest!: millis_of_seconds_error
      split: sum.splits)


lemma decode_fields_error:
  assumes d: "decode_fields data = Inl e"
  shows "(e = MessageTooShort \<and> length data < 22) \<or>
   (e = InvalidMagic (hd data) \<and> 22 \<le> length data \<and> hd data \<noteq> 0xBC) \<or>
   (e \<in> {IndexError, StructError, UnicodeDecodeError, TopicNameEmpty, TopicNameTooLong,
          OverflowError, ZeroDivisionError} \<or>
    (\<exists>v. e = InvalidMessageType v) \<or> (\<exists>n. e = PayloadTooLarge n)) \<and>
     22 \<le> length data \<and> hd data = 0xBC"
proof (cases "length data < 22")
  case True
  then show ?thesis using d by (simp add: decode_fields_def)
next
  case False
  then have ne: "data \<noteq> []" by auto
  show ?thesis
    using d False unfolding decode_fields_def magic_test [OF ne]
    by (auto split: if_splits sum.splits
        dest: unpack_uint_error MessageType_of_error new_message_at_error
        dest!: topic_from_bytes_error seconds_of_millis_error)
qed


lemma from_bytes_error_cases:
  "from_bytes md5 data = Inl e \<longleftrightarrow>
   decode_fields data = Inl e \<or>
   (\<exists>msg ck. decode_fields data = Inr (msg, ck) \<and>
      (calculate_checksum md5 msg = Inl e \<or>
       (\<exists>expected. calculate_checksum md5 msg = Inr expected \<and> ck \<noteq> expected \<and>
          e = ChecksumMismatch)))"
  by (auto simp: from_bytes_decode_fields split: sum.splits prod.splits)

lemma too_short_iff: "from_bytes md5 data = Inl MessageTooShort \<longleftrightarrow> length data < 22"
proof
  assume "from_bytes md5 data = Inl MessageTooShort"
  then show "length data < 22"
    unfolding from_bytes_error_cases
    using decode_fields_error [of data MessageTooShort]
    by (auto dest: calculate_checksum_error)
next
  assume "length data < 22"
  then show "from_bytes md5 data = Inl MessageTooShort" by (simp add: from_bytes_def)
qed

lemma bad_magic:
  assumes "22 \<le> length data" "hd data \<noteq> 0xBC"
  shows "from_bytes md5 data = Inl (InvalidMagic (hd data))"
proof -
  have ne: "data \<noteq> []" using assms(1) by auto
  show ?thesis unfolding from_bytes_def magic_test [OF ne] using assms by simp
qed

lemma invalid_magic_iff:
  "from_bytes md5 data = Inl (InvalidMagic b) \<longleftrightarrow>
   22 \<le> length data \<and> hd data \<noteq> 0xBC \<and> b = hd data"
proof
  assume "from_bytes md5 data = Inl (InvalidMagic b)"
  then show "22 \<le> length data \<and> hd data \<noteq> 0xBC \<and> b = hd data"
    unfolding from_bytes_error_cases
    using decode_fields_error [of data "InvalidMagic b"]
    by (auto dest: calculate_checksum_error)
next
  assume "22 \<le> length data \<and> hd data \<noteq> 0xBC \<and> b = hd data"
  then show "from_bytes md5 data = Inl (InvalidMagic b)" using bad_magic [of data md5] by simp
qed

lemma checksum_mismatch_iff:
  "from_bytes md5 data = Inl ChecksumMismatch \<longleftrightarrow>
   (\<exists>msg ck expected. decode_fields data = Inr (msg, ck) \<and>
      calculate_checksum md5 msg = Inr expected \<and> ck \<noteq> expected)"
  unfolding from_bytes_error_cases
  using decode_fields_error [of data ChecksumMismatch]
  by (auto dest: calculate_checksum_error)


lemma decode_fields_tail:
  assumes "pack_without_checksum m = Inr body"
  shows "decode_fields (body @ ck) =
     (case decode_fields body of
        Inl e \<Rightarrow> Inl e
      | Inr (msg, _) \<Rightarrow> Inr (msg, take 4 ck))"
proof -
  obtain h tb where h: "pack_header m = Inr h" and tb: "topic_to_bytes (topic m) = Inr tb"
    and len: "length tb < 65536" "length (payload m) < 65536"
    and b: "body = h @ be_bytes 2 (length tb) @ tb @ be_bytes 2 (length (payload m)) @ payload m"
    using assms pack_without_checksum_shape [of m body] by blast
  obtain ms where hh: "h = be_bytes 1 188 @ be_bytes 1 (nat (version m)) @
          be_bytes 2 (nat (MessageType_value (message_type m))) @
          be_bytes 4 (nat (sequence_number m)) @ be_bytes 8 (nat ms) @
          pack_6s (source_or_zeros (source_node_id m))"
    using h pack_header_shape [of m h] by auto
  have n: "be_nat (be_bytes 2 (length tb)) = length tb"
      "be_nat (be_bytes 2 (length (payload m))) = length (payload m)"
    using len by (simp_all add: be_nat_be_bytes del: be_bytes_numeral)
  have d: "decode_fields
      (be_bytes 1 188 @ be_bytes 1 (nat (version m)) @
       be_bytes 2 (nat (MessageType_value (message_type m))) @
       be_bytes 4 (nat (sequence_number m)) @ be_bytes 8 (nat ms) @
       pack_6s (source_or_zeros (source_node_id m)) @
       be_bytes 2 (length tb) @ tb @ be_bytes 2 (length (payload m)) @ payload m @ c) =
     (if int (be_nat (be_bytes 1 188)) \<noteq> BCMP_HEADER_MAGIC
      then Inl (InvalidMagic (hd (be_bytes 1 188)))
      else
        (case topic_from_bytes tb of
           Inl e \<Rightarrow> Inl e
         | Inr tp \<Rightarrow>
        (case MessageType_of
                (int (be_nat (be_bytes 2 (nat (MessageType_value (message_type m)))))) of
           Inl e \<Rightarrow> Inl e
         | Inr mt \<Rightarrow>
        (case seconds_of_millis (int (be_nat (be_bytes 8 (nat ms)))) of
           Inl e \<Rightarrow> Inl e
         | Inr ts \<Rightarrow>
        (case new_message_at tp (payload m) mt (int (be_nat (be_bytes 1 (nat (version m)))))
                (int (be_nat (be_bytes 4 (nat (sequence_number m))))) ts
                (Some (pack_6s (source_or_zeros (source_node_id m)))) of
           Inl e \<Rightarrow> Inl e
         | Inr msg \<Rightarrow> Inr (msg, take 4 c))))))" for c
    by (rule decode_fields_layout) (simp_all add: n pack_6s_length del: be_bytes_numeral)
  have e: "body = body @ []" by simp
  show ?thesis
    apply (subst (2) e)
    unfolding b hh append_assoc d
    by (simp split: sum.splits del: be_bytes_numeral)
qed

lemma tampered_checksum:
  assumes "pack_without_checksum m = Inr body" "from_bytes md5 (body @ ck0) = Inr m'"
    "take 4 ck \<noteq> take 4 ck0"
  shows "from_bytes md5 (body @ ck) = Inl ChecksumMismatch"
  using assms(2,3)
  by (auto simp: from_bytes_decode_fields decode_fields_tail [OF assms(1)]
      split: sum.splits prod.splits if_splits)

lemma flip_bit_byte: "j < 8 \<Longrightarrow> flip_bit j (x :: byte) \<noteq> x"
  using bit_flip_bit_iff [of j x j] by (auto simp: possible_bit_word)

lemma update_differs: "i < length xs \<Longrightarrow> v \<noteq> xs ! i \<Longrightarrow> xs[i := v] \<noteq> xs"
  by (metis nth_list_update_eq)


lemma encoded_length: "to_bytes md5 m = Inr enc \<Longrightarrow> 22 \<le> length enc"
  by (auto simp: to_bytes_iff pack_without_checksum_shape pack_header_shape pack_6s_length
      simp del: be_bytes_numeral)

lemma flipped_checksum_bit:
  assumes enc: "to_bytes md5 m = Inr enc" and dec: "from_bytes md5 enc = Inr m'"
    and k: "length enc - 4 \<le> k" "k < length enc" and j: "j < 8"
  shows "from_bytes md5 (enc[k := flip_bit j (enc ! k)]) = Inl ChecksumMismatch"
proof -
  obtain body where body: "pack_without_checksum m = Inr body"
    and e: "enc = body @ take 4 (digest_bytes (md5 body))"
    using enc to_bytes_iff [of md5 m enc] by blast
  define ck0 where "ck0 = take 4 (digest_bytes (md5 body))"
  have l: "length ck0 = 4" by (simp add: ck0_def)
  have e': "enc = body @ ck0" by (simp add: e ck0_def)
  define i where "i = k - length body"
  have i: "i < 4" "k = length body + i" using k l by (auto simp: e' i_def)
  have u: "enc[k := flip_bit j (enc ! k)] = body @ ck0[i := flip_bit j (ck0 ! i)]"
    by (simp add: e' i list_update_append nth_append)
  have "ck0[i := flip_bit j (ck0 ! i)] \<noteq> ck0"
    using i l flip_bit_byte [OF j, of "ck0 ! i"] by (intro update_differs) auto
  then have "take 4 (ck0[i := flip_bit j (ck0 ! i)]) \<noteq> take 4 ck0" using l by simp
  from tampered_checksum [OF body dec [unfolded e'] this] show ?thesis by (simp add: u)
qed

text \<open>
  Claim C4, as the code has it.  \<^verbatim>\<open>from_bytes\<close> raises "Message too short" exactly for an
  input of fewer than 22 bytes, and "Invalid magic byte" exactly for an input of at least 22
  bytes whose first byte is not \<open>0xBC\<close>.  These two, an empty or over-long topic name and an
  oversized payload are its format errors.  It raises "Checksum mismatch", its only integrity
  error, exactly when every field decodes, the checksum of the decoded message can be
  computed, and it differs from the bytes that follow the payload (at most four).  For an
  encoded message that decodes, flipping one bit in one of the last four bytes makes decoding
  raise "Checksum mismatch"; replacing the first byte of an encoded message by a byte other
  than \<open>0xBC\<close> makes it raise "Invalid magic byte".
\<close>

theorem decode_failures:
  "(from_bytes md5 data = Inl MessageTooShort \<longleftrightarrow> length data < 22) \<and>
   (from_bytes md5 data = Inl (InvalidMagic b) \<longleftrightarrow>
      22 \<le> length data \<and> hd data \<noteq> 0xBC \<and> b = hd data) \<and>
   (from_bytes md5 data = Inl ChecksumMismatch \<longleftrightarrow>
      (\<exists>msg ck expected. decode_fields data = Inr (msg, ck) \<and>
         calculate_checksum md5 msg = Inr expected \<and> ck \<noteq> expected)) \<and>
   (from_bytes md5 data = Inl e \<longrightarrow>
      (kind_of e = FormatError \<longleftrightarrow>
         e = MessageTooShort \<or> e = InvalidMagic (hd data) \<or> e = TopicNameEmpty \<or>
         e = TopicNameTooLong \<or> (\<exists>n. e = PayloadTooLarge n)) \<and>
      (kind_of e = IntegrityError \<longleftrightarrow> e = ChecksumMismatch)) \<and>
   (to_bytes md5 m = Inr enc \<and> from_bytes md5 enc = Inr m' \<and>
    length enc - 4 \<le> k \<and> k < length enc \<and> j < 8 \<longrightarrow>
      from_bytes md5 (enc[k := flip_bit j (enc ! k)]) = Inl ChecksumMismatch) \<and>
   (to_bytes md5 m = Inr enc \<and> c \<noteq> 0xBC \<longrightarrow>
      from_bytes md5 (enc[0 := c]) = Inl (InvalidMagic c))"
proof -
  have "from_bytes md5 (enc[0 := c]) = Inl (InvalidMagic c)"
    if "to_bytes md5 m = Inr enc" "c \<noteq> 0xBC"
  proof -
    have l: "22 \<le> length enc" using that(1) by (rule encoded_length)
    then have "hd (enc[0 := c]) = c" by (cases enc) simp_all
    with bad_magic [of "enc[0 := c]" md5] l that(2) show ?thesis by simp
  qed
  moreover have "(kind_of e = FormatError \<longleftrightarrow>
         e = MessageTooShort \<or> e = InvalidMagic (hd data) \<or> e = TopicNameEmpty \<or>
         e = TopicNameTooLong \<or> (\<exists>n. e = PayloadTooLarge n)) \<and>
      (kind_of e = IntegrityError \<longleftrightarrow> e = ChecksumMismatch)"
    if "from_bytes md5 data = Inl e"
    using that decode_fields_error [of data e] unfolding from_bytes_error_cases
    by (auto dest!: calculate_checksum_error)
  ultimately show ?thesis
    using too_short_iff [of md5 data] invalid_magic_iff [of md5 data b]
      checksum_mismatch_iff [of md5 data] flipped_checksum_bit [of md5 m enc m' k j]
    by simp
qed

lemma test_message_decodes:
  "from_bytes md5
     ([0xBC, 1, 0, 1, 0, 0, 0, 1, 0, 0, 1, 0x1F, 0x71, 0xFB, 4, 0x50, 0, 0, 0, 0, 0, 0,
       0, 7, 1, 0, 4, 0x74, 0x65, 0x73, 0x74, 0, 4, 0x74, 0x65, 0x73, 0x74] @
      take 4 (digest_bytes (md5
        [0xBC, 1, 0, 1, 0, 0, 0, 1, 0, 0, 1, 0x1F, 0x71, 0xFB, 4, 0x50, 0, 0, 0, 0, 0, 0,
         0, 7, 1, 0, 4, 0x74, 0x65, 0x73, 0x74, 0, 4, 0x74, 0x65, 0x73, 0x74]))) =
   Inr ((test_message 1)\<lparr>source_node_id := Some [0, 0, 0, 0, 0, 0]\<rparr>)"
proof -
  have p: "pack_without_checksum (test_message 1) =
      Inr [0xBC, 1, 0, 1, 0, 0, 0, 1, 0, 0, 1, 0x1F, 0x71, 0xFB, 4, 0x50, 0, 0, 0, 0, 0, 0,
           0, 7, 1, 0, 4, 0x74, 0x65, 0x73, 0x74, 0, 4, 0x74, 0x65, 0x73, 0x74]"
    using pack_test_message [of 1] by simp
  have v: "name (topic (test_message 1)) \<noteq> []" "length (name (topic (test_message 1))) \<le> 64"
      "length (payload (test_message 1)) \<le> MAX_PAYLOAD_SIZE"
      "millis_of_seconds (timestamp (test_message 1)) = Inr 1234567890000"
    by (simp_all add: test_message_def test_topic_def pystr_of_def MAX_PAYLOAD_SIZE_def
        millis_of_test_timestamp)
  show ?thesis
    using from_bytes_encoded [OF p v seconds_of_test_millis millis_of_test_timestamp, of md5
        "take 4 (digest_bytes (md5
          [0xBC, 1, 0, 1, 0, 0, 0, 1, 0, 0, 1, 0x1F, 0x71, 0xFB, 4, 0x50, 0, 0, 0, 0, 0, 0,
           0, 7, 1, 0, 4, 0x74, 0x65, 0x73, 0x74, 0, 4, 0x74, 0x65, 0x73, 0x74]))"]
    by (simp add: test_message_def test_topic_def pack_6s_def source_or_zeros_def)
qed

theorem decode_failures_witness:
  "from_bytes hashlib_md5 [0xBC, 1, 0, 1] = Inl MessageTooShort \<and>
   from_bytes hashlib_md5
     ((projr (to_bytes hashlib_md5 (test_message 1)))
        [40 := flip_bit 0 (projr (to_bytes hashlib_md5 (test_message 1)) ! 40)]) =
     Inl ChecksumMismatch \<and>
   from_bytes hashlib_md5 ((projr (to_bytes hashlib_md5 (test_message 1)))[0 := 0]) =
     Inl (InvalidMagic 0)"
  using decode_failures
    [where ?md5.0 = hashlib_md5 and data = "[0xBC, 1, 0, 1]" and m = "test_message 1"
       and enc = "projr (to_bytes hashlib_md5 (test_message 1))"
       and m' = "(test_message 1)\<lparr>source_node_id := Some [0, 0, 0, 0, 0, 0]\<rparr>"
       and k = 40 and j = 0 and c = 0]
    test_message_decodes [of hashlib_md5]
  unfolding to_bytes_test_message_1
  by simp

text \<open>
  Claim C4 as stated fails on an input of 27 bytes that starts with \<open>0xBC\<close> and whose topic
  block holds a name of length zero: decoding raises "Topic name cannot be empty", a format
  error, though the input is neither short nor wrong in its first byte.
\<close>

theorem decode_format_error_counterexample:
  "from_bytes hashlib_md5
     [0xBC, 1, 0, 1, 0, 0, 0, 1, 0, 0, 0, 0, 0, 0, 0, 0, 0, 0, 0, 0, 0, 0,
      0, 3, 1, 0, 0] = Inl TopicNameEmpty \<and>
   kind_of TopicNameEmpty = FormatError \<and>
   \<not> length [0xBC :: byte, 1, 0, 1, 0, 0, 0, 1, 0, 0, 0, 0, 0, 0, 0, 0, 0, 0, 0, 0, 0, 0,
      0, 3, 1, 0, 0] < 22"
  by (simp add: from_bytes_def slice_def be_nat_def BCMP_HEADER_MAGIC_def unpack_uint_def
      topic_from_bytes_def new_topic_def)


section \<open>Readings\<close>

lemma x_lt_iff_not_le: "a \<noteq> NaN \<Longrightarrow> b \<noteq> NaN \<Longrightarrow> x_lt a b \<longleftrightarrow> \<not> x_le b a"
  by (cases a; cases b) auto

lemma x_le_NaN [simp]: "\<not> x_le a NaN" "\<not> x_le NaN a"
  by (cases a; simp)+

lemma validate_reading_iff:
  assumes "f64_val (min_value s) \<noteq> NaN" "f64_val (max_value s) \<noteq> NaN"
    "is_numeric v \<longrightarrow> num_val v \<noteq> NaN"
  shows "fst (validate_reading s v) \<longleftrightarrow>
     is_numeric v \<and> x_le (f64_val (min_value s)) (num_val v) \<and>
     x_le (num_val v) (f64_val (max_value s))"
  using assms by (auto simp: validate_reading_def x_lt_iff_not_le)






lemma f64_val_examples:
  "f64_val 0xC014000000000000 = Fin (- 5)"
  "f64_val 0x4049000000000000 = Fin 50"
  "f64_val 0x4034000000000000 = Fin 20"
  "f64_val 0x404E000000000000 = Fin 60"
  "f64_val 0x4079000000000000 = Fin 400"
  "f64_val 0x7FF8000000000000 = NaN"
  by (simp_all add: fl_eval cong: let_weak_cong)





section \<open>The encoding of a reading\<close>

lemma unpack_pack_f64: "unpack_f64 (pack_f64 x) = Inr x"
proof -
  have "unat x < 256 ^ 8" using unsigned_less [of x, where 'a = nat] by simp
  then show ?thesis
    by (simp add: unpack_f64_def pack_f64_def be_nat_be_bytes del: be_bytes_numeral)
qed

lemma unpack_f32_bytes: "unpack_f32 (be_bytes 4 (unat (y :: f32))) = Inr (f32_to_f64 y)"
proof -
  have "unat y < 256 ^ 4" using unsigned_less [of y, where 'a = nat] by simp
  then show ?thesis
    by (simp add: unpack_f32_def be_nat_be_bytes del: be_bytes_numeral)
qed

lemma pack_d_shape:
  "pack_d v = Inr b \<longleftrightarrow>
   (\<exists>x. b = pack_f64 x \<and>
      (v = PyFloat x \<or> (\<exists>i. v = PyInt i \<and> f64_of_int i = Inr x) \<or>
       (\<exists>t. v = PyBool t \<and> f64_of_int (if t then 1 else 0) = Inr x)))"
  by (cases v) (auto split: sum.splits)

lemma reading_to_bytes_shape:
  "reading_to_bytes r = Inr bs \<longleftrightarrow>
   (\<exists>ms x y. millis_of_seconds (reading_timestamp r) = Inr ms \<and> 0 \<le> ms \<and> ms < 2 ^ 64 \<and>
      pack_d (reading_value r) = Inr (pack_f64 x) \<and>
      0 \<le> quality r \<and> quality r < 256 \<and>
      f64_to_f32 (case depth_m r of None \<Rightarrow> f64_minus_1 | Some d \<Rightarrow> d) = Inr y \<and>
      bs = pack_f64 x @ be_bytes 8 (nat ms) @ be_bytes 1 (nat (quality r)) @ be_bytes 4 (unat y))"
  by (auto simp: reading_to_bytes_def Let_def pack_uint_def pack_f32_def pack_d_shape
      simp del: be_bytes_numeral split: sum.splits)


lemma reading_layout:
  assumes "length b0 = 8" "length b1 = 8" "length b2 = 1" "length b3 = 4"
  shows "reading_from_bytes (b0 @ b1 @ b2 @ b3 @ extra) u =
     (case unpack_f64 b0 of Inl e \<Rightarrow> Inl e | Inr v \<Rightarrow>
     (case unpack_f32 b3 of Inl e \<Rightarrow> Inl e | Inr depth \<Rightarrow>
     (case seconds_of_millis (int (be_nat b1)) of Inl e \<Rightarrow> Inl e | Inr ts \<Rightarrow>
        new_reading (PyFloat v) u ts (int (be_nat b2)) None (depth_or_none depth))))"
proof -
  have d: "slice 0 21 (b0 @ b1 @ b2 @ b3 @ extra) = b0 @ b1 @ b2 @ b3"
    using assms by (simp add: slice_def)
  have s: "slice 0 8 (b0 @ b1 @ b2 @ b3) = b0" "slice 8 16 (b0 @ b1 @ b2 @ b3) = b1"
    "slice 16 17 (b0 @ b1 @ b2 @ b3) = b2" "slice 17 21 (b0 @ b1 @ b2 @ b3) = b3"
    using assms by (simp_all add: slice_def)
  have l: "length (b0 @ b1 @ b2 @ b3) = 21" using assms by simp
  show ?thesis
    unfolding reading_from_bytes_def Let_def d s l by simp
qed

lemma reading_from_to_bytes:
  assumes ms: "millis_of_seconds (reading_timestamp r) = Inr ms" "0 \<le> ms" "ms < 2 ^ 64"
    and q: "0 \<le> quality r" "quality r \<le> 100"
    and ts: "seconds_of_millis ms = Inr ts"
  shows "reading_from_bytes
      ((pack_f64 x @ be_bytes 8 (nat ms) @ be_bytes 1 (nat (quality r)) @ be_bytes 4 (unat y))
        @ extra) u =
     Inr \<lparr>reading_value = PyFloat x, reading_unit = u, reading_timestamp = ts,
          quality = quality r, reading_sensor_id = None,
          depth_m = depth_or_none (f32_to_f64 y)\<rparr>"
proof -
  define b0 where "b0 = pack_f64 x"
  define b1 where "b1 = be_bytes 8 (nat ms)"
  define b2 where "b2 = be_bytes 1 (nat (quality r))"
  define b3 where "b3 = be_bytes 4 (unat y)"
  have l: "length b0 = 8" "length b1 = 8" "length b2 = 1" "length b3 = 4"
    by (simp_all add: b0_def b1_def b2_def b3_def pack_f64_def del: be_bytes_numeral)
  have n: "int (be_nat b1) = ms"
    using ms(2,3) by (simp add: b1_def be_nat_be_bytes nat_less_iff del: be_bytes_numeral)
  have n1: "int (be_nat b2) = quality r"
    using q be_nat_be_bytes [of 1 "nat (quality r)"] by (simp add: b2_def nat_less_iff)
  have u: "unpack_f64 b0 = Inr x" "unpack_f32 b3 = Inr (f32_to_f64 y)"
    by (simp_all only: b0_def b3_def unpack_pack_f64 unpack_f32_bytes)
  have "reading_from_bytes (b0 @ b1 @ b2 @ b3 @ extra) u =
     Inr \<lparr>reading_value = PyFloat x, reading_unit = u, reading_timestamp = ts,
          quality = quality r, reading_sensor_id = None,
          depth_m = depth_or_none (f32_to_f64 y)\<rparr>"
    using q by (simp add: reading_layout [OF l] u n n1 ts new_reading_def)
  then show ?thesis by (simp only: b0_def b1_def b2_def b3_def append_assoc)
qed


lemma f32_round_trip:
  assumes v: "f64_val x = Fin v" and y: "f64_to_f32 x = Inr y"
  shows "\<exists>v'. f64_val (f32_to_f64 y) = Fin v' \<and>
           (2 powi (- 126) \<le> \<bar>v\<bar> \<longrightarrow> \<bar>v' - v\<bar> \<le> \<bar>v\<bar> / 2 ^ 24) \<and>
           (v = 0 \<longrightarrow> v' = 0) \<and> (0 \<le> v \<longrightarrow> 0 \<le> v')"
proof -
  have fin: "\<not> fl_is_nan 11 52 (unat x)" "\<not> fl_is_inf 11 52 (unat x)"
    and vv: "v = fl_value 11 52 (unat x)"
    using v by (simp_all add: f64_val_cases(2))
  note n = narrow_error [OF fin y]
  show ?thesis
    using widen_exact [OF n(1)] n(2,3,4) by (simp add: vv)
qed

lemma depth_round_trip:
  assumes v: "f64_val d = Fin v" and y: "f64_to_f32 d = Inr y"
  shows "v \<le> - (2 powi (- 126)) \<Longrightarrow> depth_or_none (f32_to_f64 y) = None"
    and "v = 0 \<or> 2 powi (- 126) \<le> v \<Longrightarrow>
         \<exists>v'. depth_or_none (f32_to_f64 y) = Some (f32_to_f64 y) \<and>
              f64_val (f32_to_f64 y) = Fin v' \<and> \<bar>v' - v\<bar> \<le> v / 2 ^ 24"
proof -
  obtain v' where v': "f64_val (f32_to_f64 y) = Fin v'"
    and b: "2 powi (- 126) \<le> \<bar>v\<bar> \<longrightarrow> \<bar>v' - v\<bar> \<le> \<bar>v\<bar> / 2 ^ 24"
    and z: "v = 0 \<longrightarrow> v' = 0" and nn: "0 \<le> v \<longrightarrow> 0 \<le> v'"
    using f32_round_trip [OF v y] by blast
  have p: "(0::real) < 2 powi (- 126)" by simp
  show "depth_or_none (f32_to_f64 y) = None" if neg: "v \<le> - (2 powi (- 126))"
  proof -
    have a: "\<bar>v\<bar> = - v" "v < 0" using neg p by linarith+
    then have "\<bar>v' - v\<bar> \<le> - v / 2 ^ 24" using b neg by simp
    then have "v' \<le> v + - v / 2 ^ 24" by linarith
    also have "\<dots> < 0" using a(2) by (simp add: field_simps)
    finally show ?thesis by (simp add: depth_or_none_def v')
  qed
  show "\<exists>v'. depth_or_none (f32_to_f64 y) = Some (f32_to_f64 y) \<and>
              f64_val (f32_to_f64 y) = Fin v' \<and> \<bar>v' - v\<bar> \<le> v / 2 ^ 24"
    if pos: "v = 0 \<or> 2 powi (- 126) \<le> v"
  proof -
    have v0: "0 \<le> v" using pos p by linarith
    then have "0 \<le> v'" using nn by simp
    moreover have "\<bar>v' - v\<bar> \<le> v / 2 ^ 24" using pos b z v0 by auto
    ultimately show ?thesis by (simp add: depth_or_none_def v')
  qed
qed

lemma f64_val_minus_1: "f64_val f64_minus_1 = Fin (- 1)"
  by (simp add: fl_eval cong: let_weak_cong)


lemma reading_decodes:
  assumes enc: "reading_to_bytes r = Inr bs" and q: "quality r \<le> 100"
  shows "length bs = 21"
    and "\<exists>x y ts. pack_d (reading_value r) = Inr (pack_f64 x) \<and>
           f64_to_f32 (case depth_m r of None \<Rightarrow> f64_minus_1 | Some d \<Rightarrow> d) = Inr y \<and>
           reading_from_bytes (bs @ extra) u =
             Inr \<lparr>reading_value = PyFloat x, reading_unit = u, reading_timestamp = ts,
                  quality = quality r, reading_sensor_id = None,
                  depth_m = depth_or_none (f32_to_f64 y)\<rparr>"
proof -
  obtain ms x y where ms: "millis_of_seconds (reading_timestamp r) = Inr ms" "0 \<le> ms" "ms < 2 ^ 64"
    and x: "pack_d (reading_value r) = Inr (pack_f64 x)"
    and q0: "0 \<le> quality r"
    and y: "f64_to_f32 (case depth_m r of None \<Rightarrow> f64_minus_1 | Some d \<Rightarrow> d) = Inr y"
    and bs: "bs = pack_f64 x @ be_bytes 8 (nat ms) @ be_bytes 1 (nat (quality r)) @
               be_bytes 4 (unat y)"
    using enc reading_to_bytes_shape [of r bs] by blast
  show "length bs = 21" by (simp add: bs pack_f64_def del: be_bytes_numeral)
  obtain ts where ts: "seconds_of_millis ms = Inr ts"
    using seconds_of_millis_total [OF ms(2,3)] by blast
  show "\<exists>x y ts. pack_d (reading_value r) = Inr (pack_f64 x) \<and>
           f64_to_f32 (case depth_m r of None \<Rightarrow> f64_minus_1 | Some d \<Rightarrow> d) = Inr y \<and>
           reading_from_bytes (bs @ extra) u =
             Inr \<lparr>reading_value = PyFloat x, reading_unit = u, reading_timestamp = ts,
                  quality = quality r, reading_sensor_id = None,
                  depth_m = depth_or_none (f32_to_f64 y)\<rparr>"
    using x y reading_from_to_bytes [OF ms q0 q ts, of x y extra u]
    unfolding bs append_assoc by blast
qed

lemma pack_f64_inject: "pack_f64 x = pack_f64 x' \<Longrightarrow> x = x'"
  by (metis unpack_pack_f64 sum.inject(2))

text \<open>
  Claim C5, as the code has it.  Let a reading have an encoding and a quality of at most
  100.  The encoding has 21 bytes; it is the payload of the message \<^verbatim>\<open>wrap_reading\<close> builds, and
  \<^verbatim>\<open>wrap_current_reading\<close> appends the four bytes of the direction, for 25 bytes.  Decoding the
  encoding, followed by any further bytes, returns a reading with the same quality and the
  unit given to the decoder.  Its value is a float that packs to the same eight bytes as the
  original value, the same float when the original was a float.  Its depth is absent when
  the original was absent or at most \<open>- (2 powi - 126)\<close>; when the original was zero or at
  least \<open>2 powi - 126\<close> it is present and differs from it by at most the original divided by
  \<open>2 ^ 24\<close>.  A reading has an encoding exactly when its timestamp times 1000, truncated, is
  an unsigned 64-bit number, its value packs as a float, its quality is a byte, and its
  depth, or \<open>-1.0\<close> for none, narrows to 32 bits without overflow.
\<close>

theorem reading_round_trip:
  "((\<exists>bs. reading_to_bytes r = Inr bs) \<longleftrightarrow>
      (\<exists>ms. millis_of_seconds (reading_timestamp r) = Inr ms \<and> 0 \<le> ms \<and> ms < 2 ^ 64) \<and>
      (\<exists>b. pack_d (reading_value r) = Inr b) \<and> 0 \<le> quality r \<and> quality r < 256 \<and>
      (\<exists>y. f64_to_f32 (case depth_m r of None \<Rightarrow> f64_minus_1 | Some d \<Rightarrow> d) = Inr y)) \<and>
   (reading_to_bytes r = Inr bs \<and> quality r \<le> 100 \<longrightarrow>
     length bs = 21 \<and>
     (\<exists>r'. reading_from_bytes (bs @ extra) u = Inr r') \<and>
     (wrap_reading s r = Inr (msg, s1) \<longrightarrow> payload msg = bs) \<and>
     (wrap_current_reading s r dir = Inr (msg', s2) \<longrightarrow>
        length (payload msg') = 25 \<and> take 21 (payload msg') = bs \<and>
        pack_f32 dir = Inr (drop 21 (payload msg'))) \<and>
     (reading_from_bytes (bs @ extra) u = Inr r' \<longrightarrow>
        quality r' = quality r \<and> reading_unit r' = u \<and>
        (\<exists>x. reading_value r' = PyFloat x) \<and>
        pack_d (reading_value r') = pack_d (reading_value r) \<and>
        (reading_value r = PyFloat x \<longrightarrow> reading_value r' = PyFloat x) \<and>
        (depth_m r = None \<longrightarrow> depth_m r' = None) \<and>
        (depth_m r = Some d \<and> f64_val d = Fin v \<and> v \<le> - (2 powi (- 126)) \<longrightarrow>
           depth_m r' = None) \<and>
        (depth_m r = Some d \<and> f64_val d = Fin v \<and> (v = 0 \<or> 2 powi (- 126) \<le> v) \<longrightarrow>
           (\<exists>d' v'. depth_m r' = Some d' \<and> f64_val d' = Fin v' \<and>
              \<bar>v' - v\<bar> \<le> v / 2 ^ 24))))"
proof -
  have A: "((\<exists>bs. reading_to_bytes r = Inr bs) \<longleftrightarrow>
      (\<exists>ms. millis_of_seconds (reading_timestamp r) = Inr ms \<and> 0 \<le> ms \<and> ms < 2 ^ 64) \<and>
      (\<exists>b. pack_d (reading_value r) = Inr b) \<and> 0 \<le> quality r \<and> quality r < 256 \<and>
      (\<exists>y. f64_to_f32 (case depth_m r of None \<Rightarrow> f64_minus_1 | Some d \<Rightarrow> d) = Inr y))"
    unfolding reading_to_bytes_shape pack_d_shape
    by (cases "reading_value r") (auto simp: pack_d_shape)
  have B: "length bs = 21 \<and>
     (\<exists>r'. reading_from_bytes (bs @ extra) u = Inr r') \<and>
     (wrap_reading s r = Inr (msg, s1) \<longrightarrow> payload msg = bs) \<and>
     (wrap_current_reading s r dir = Inr (msg', s2) \<longrightarrow>
        length (payload msg') = 25 \<and> take 21 (payload msg') = bs \<and>
        pack_f32 dir = Inr (drop 21 (payload msg'))) \<and>
     (reading_from_bytes (bs @ extra) u = Inr r' \<longrightarrow>
        quality r' = quality r \<and> reading_unit r' = u \<and>
        (\<exists>x. reading_value r' = PyFloat x) \<and>
        pack_d (reading_value r') = pack_d (reading_value r) \<and>
        (reading_value r = PyFloat x \<longrightarrow> reading_value r' = PyFloat x) \<and>
        (depth_m r = None \<longrightarrow> depth_m r' = None) \<and>
        (depth_m r = Some d \<and> f64_val d = Fin v \<and> v \<le> - (2 powi (- 126)) \<longrightarrow>
           depth_m r' = None) \<and>
        (depth_m r = Some d \<and> f64_val d = Fin v \<and> (v = 0 \<or> 2 powi (- 126) \<le> v) \<longrightarrow>
           (\<exists>d' v'. depth_m r' = Some d' \<and> f64_val d' = Fin v' \<and>
              \<bar>v' - v\<bar> \<le> v / 2 ^ 24)))"
    if enc: "reading_to_bytes r = Inr bs" and q: "quality r \<le> 100"
  proof -
  note l = reading_decodes(1) [OF enc q]
  obtain x0 y ts where x0: "pack_d (reading_value r) = Inr (pack_f64 x0)"
    and y: "f64_to_f32 (case depth_m r of None \<Rightarrow> f64_minus_1 | Some d \<Rightarrow> d) = Inr y"
    and dec: "reading_from_bytes (bs @ extra) u =
             Inr \<lparr>reading_value = PyFloat x0, reading_unit = u, reading_timestamp = ts,
                  quality = quality r, reading_sensor_id = None,
                  depth_m = depth_or_none (f32_to_f64 y)\<rparr>"
    using reading_decodes(2) [OF enc q, of extra u] by blast
  have w1: "payload msg = bs" if "wrap_reading s r = Inr (msg, s1)"
    using that enc
    by (auto simp: wrap_reading_def new_message_at_def new_message_def
        split: sum.splits if_splits)
  have w2: "length (payload msg') = 25 \<and> take 21 (payload msg') = bs \<and>
        pack_f32 dir = Inr (drop 21 (payload msg'))"
    if "wrap_current_reading s r dir = Inr (msg', s2)"
    using that enc l
    by (auto simp: wrap_current_reading_def new_message_at_def new_message_def pack_f32_def
        split: sum.splits if_splits)
  have fl: "reading_value r' = PyFloat x" if "reading_value r = PyFloat x"
      "reading_from_bytes (bs @ extra) u = Inr r'"
    using that x0 dec pack_f64_inject [of x x0] by auto
  have dn: "depth_m r' = None" if "depth_m r = None" "reading_from_bytes (bs @ extra) u = Inr r'"
    using that dec depth_round_trip(1) [OF f64_val_minus_1, of y] y by auto
  have dneg: "depth_m r' = None"
    if "depth_m r = Some d" "f64_val d = Fin v" "v \<le> - (2 powi (- 126))"
      "reading_from_bytes (bs @ extra) u = Inr r'"
    using that dec depth_round_trip(1) [OF that(2), of y] y by auto
  have dpos: "\<exists>d' v'. depth_m r' = Some d' \<and> f64_val d' = Fin v' \<and> \<bar>v' - v\<bar> \<le> v / 2 ^ 24"
    if "depth_m r = Some d" "f64_val d = Fin v" "v = 0 \<or> 2 powi (- 126) \<le> v"
      "reading_from_bytes (bs @ extra) u = Inr r'"
    using that(1,4) dec depth_round_trip(2) [OF that(2) _ that(3), of y] y by auto
  have basic: "quality r' = quality r \<and> reading_unit r' = u \<and>
        (\<exists>x. reading_value r' = PyFloat x) \<and>
        pack_d (reading_value r') = pack_d (reading_value r)"
    if "reading_from_bytes (bs @ extra) u = Inr r'"
    using that dec x0 by auto
  show ?thesis
    using l dec w1 w2 fl dn dneg dpos basic by blast
  qed
  from A B show ?thesis by blast
qed


lemma f64_val_depth_examples:
  "f64_val 0x4025000000000000 = Fin (21 / 2)"
  by (simp add: fl_eval cong: let_weak_cong)

lemma pack_f32_examples:
  "pack_f32 0x4025000000000000 = Inr [0x41, 0x28, 0, 0]"
  "pack_f32 0xC014000000000000 = Inr [0xC0, 0xA0, 0, 0]"
  by (simp_all add: pack_f32_def fl_eval cong: let_weak_cong)

lemma unpack_f32_examples:
  "unpack_f32 [0x41, 0x28, 0, 0] = Inr 0x4025000000000000"
  "unpack_f32 [0xC0, 0xA0, 0, 0] = Inr 0xC014000000000000"
  by (simp_all add: unpack_f32_def be_nat_def fl_eval cong: let_weak_cong)

lemma test_reading_with_depth:
  "reading_to_bytes (test_reading\<lparr>depth_m := Some 0x4025000000000000\<rparr>) =
     Inr [0x40, 0x34, 0, 0, 0, 0, 0, 0, 0, 0, 1, 0x1F, 0x71, 0xFB, 4, 0x50, 0x64,
          0x41, 0x28, 0, 0]"
  "reading_to_bytes (test_reading\<lparr>depth_m := Some 0xC014000000000000\<rparr>) =
     Inr [0x40, 0x34, 0, 0, 0, 0, 0, 0, 0, 0, 1, 0x1F, 0x71, 0xFB, 4, 0x50, 0x64,
          0xC0, 0xA0, 0, 0]"
  by (simp_all add: reading_to_bytes_def test_reading_def millis_of_test_timestamp pack_f64_def
      pack_uint_def pack_f32_examples)

lemma decode_test_reading:
  "reading_from_bytes
     [0x40, 0x34, 0, 0, 0, 0, 0, 0, 0, 0, 1, 0x1F, 0x71, 0xFB, 4, 0x50, 0x64, b0, b1, b2, b3]
     u =
   (case unpack_f32 [b0, b1, b2, b3] of
      Inl e \<Rightarrow> Inl e
    | Inr depth \<Rightarrow>
        Inr \<lparr>reading_value = PyFloat 0x4034000000000000, reading_unit = u,
             reading_timestamp = 0x41D26580B4800000, quality = 100, reading_sensor_id = None,
             depth_m = depth_or_none depth\<rparr>)"
  using reading_layout [of "[0x40, 0x34, 0, 0, 0, 0, 0, 0]" "[0, 0, 1, 0x1F, 0x71, 0xFB, 4, 0x50]"
      "[0x64]" "[b0, b1, b2, b3]" "[]" u]
  by (simp add: unpack_f64_def be_nat_def seconds_of_test_millis new_reading_def
      split: sum.splits)

theorem reading_round_trip_witness:
  "length (projr (reading_to_bytes (test_reading\<lparr>depth_m := Some 0x4025000000000000\<rparr>))) = 21 \<and>
   reading_from_bytes
     (projr (reading_to_bytes (test_reading\<lparr>depth_m := Some 0x4025000000000000\<rparr>))) CELSIUS =
     Inr \<lparr>reading_value = PyFloat 0x4034000000000000, reading_unit = CELSIUS,
          reading_timestamp = 0x41D26580B4800000, quality = 100, reading_sensor_id = None,
          depth_m = Some 0x4025000000000000\<rparr>"
  using reading_round_trip
    [where r = "test_reading\<lparr>depth_m := Some 0x4025000000000000\<rparr>"
       and bs = "[0x40, 0x34, 0, 0, 0, 0, 0, 0, 0, 0, 1, 0x1F, 0x71, 0xFB, 4, 0x50, 0x64,
                  0x41, 0x28, 0, 0]"
       and extra = "[]" and u = CELSIUS and x = "0x4034000000000000"
       and d = "0x4025000000000000" and v = "21 / 2"
       and r' = "\<lparr>reading_value = PyFloat 0x4034000000000000, reading_unit = CELSIUS,
          reading_timestamp = 0x41D26580B4800000, quality = 100, reading_sensor_id = None,
          depth_m = Some 0x4025000000000000\<rparr>"]
  unfolding test_reading_with_depth
  by (simp add: decode_test_reading unpack_f32_examples depth_or_none_def
      f64_val_depth_examples test_reading_def)

text \<open>
  Claim C5 as stated fails for a reading taken 5 metres above the surface: its depth \<open>-5.0\<close>
  is present, and the decoded reading has none.
\<close>

theorem negative_depth_counterexample:
  "depth_m (test_reading\<lparr>depth_m := Some 0xC014000000000000\<rparr>) = Some 0xC014000000000000 \<and>
   map_sum id depth_m
     (reading_from_bytes
        (projr (reading_to_bytes (test_reading\<lparr>depth_m := Some 0xC014000000000000\<rparr>)))
        CELSIUS) = Inr None"
  unfolding test_reading_with_depth
  by (simp add: decode_test_reading unpack_f32_examples depth_or_none_def f64_val_examples)


end
